theory Spec2Isabelle
  imports Complex_Main "HOL-Library.Sublist" "HOL-Library.AList"
begin

section \<open>Strings, JSON values and the Python runtime\<close>

text \<open>
  A Python \<open>str\<close> is a sequence of Unicode code points, and \<open>len\<close> counts code
  points. A code point is a natural number here and a string is a list of them.
  \<open>ustr_of\<close> reads an ASCII literal.
\<close>

type_synonym ustr = "nat list"

definition ustr_of :: "string \<Rightarrow> ustr" where
  "ustr_of s = map of_char s"

text \<open>
  The values \<open>json.load\<close> returns. An object is the parsed \<open>dict\<close>, held as an
  association list that is read with \<open>map_of\<close> (the keys of a parsed dict are
  distinct). A float is the number it stands for; the code does nothing with a number,
  a truth value or \<open>null\<close> but turn it into text.
\<close>

datatype json =
    JNull
  | JBool bool
  | JInt int
  | JFloat real
  | JStr ustr
  | JArr "json list"
  | JObj "(ustr \<times> json) list"

text \<open>
  The exceptions of the two modules, all of them subclasses of \<open>Exception\<close>. Those of
  the first line come from opening, parsing or writing a file and from \<open>print\<close>,
  \<open>InferenceError\<close> stands for whatever the tokenizer or the model raises.
\<close>

datatype py_error =
    OSError | UnicodeDecodeError | UnicodeEncodeError | JSONDecodeError | RecursionError | MemoryError
  | AttributeError | TypeError | KeyError | ValueError | IndexError
  | RuntimeError | InferenceError

text \<open>
  What the code takes from the Python runtime and is not part of the repository:
  the Unicode tables behind \<open>\w\<close>, \<open>\s\<close> and \<open>str.strip\<close> (the regular
  expression module and \<open>strip\<close> share one whitespace table); the limit
  \<open>sys.get_int_max_str_digits()\<close> on the digits of an integer that \<open>str\<close> converts
  (4300 unless it was changed, 0 for no limit); and \<open>repr\<close> of a float, a list or a
  dict, which can raise as well (a list that holds an integer beyond the limit). They
  are parameters of the model.
\<close>

record pyrt =
  isalnum :: "nat \<Rightarrow> bool"
  isspace :: "nat \<Rightarrow> bool"
  max_str_digits :: nat
  py_repr :: "json \<Rightarrow> py_error + ustr"

text \<open>
  An instance for evaluating examples. \<open>demo_isspace\<close> is the whitespace table of
  CPython 3.11. \<open>demo_isalnum\<close> is its alphanumeric table on the code points the
  examples use: those below 128 and the Cyrillic letters U+0400 to U+0481. The digit
  limit is the default one. No example needs \<open>repr\<close>.
\<close>

definition demo_isspace :: "nat \<Rightarrow> bool" where
  "demo_isspace c \<longleftrightarrow>
     (9 \<le> c \<and> c \<le> 13) \<or> (28 \<le> c \<and> c \<le> 32) \<or> c = 133 \<or> c = 160 \<or> c = 5760 \<or>
     (8192 \<le> c \<and> c \<le> 8202) \<or> c = 8232 \<or> c = 8233 \<or> c = 8239 \<or> c = 8287 \<or> c = 12288"

definition demo_isalnum :: "nat \<Rightarrow> bool" where
  "demo_isalnum c \<longleftrightarrow>
     (48 \<le> c \<and> c \<le> 57) \<or> (65 \<le> c \<and> c \<le> 90) \<or> (97 \<le> c \<and> c \<le> 122) \<or>
     (1024 \<le> c \<and> c \<le> 1153)"

definition demo_rt :: pyrt where
  "demo_rt = \<lparr>isalnum = demo_isalnum, isspace = demo_isspace, max_str_digits = 4300,
               py_repr = (\<lambda>v. Inr [])\<rparr>"

subsection \<open>Built-ins\<close>

text \<open>
  \<open>str(n)\<close> for an integer: the decimal digits, with a minus sign. It raises
  \<open>ValueError\<close> when a limit is set and the integer has more digits than the limit
  (the sign does not count).
\<close>

fun str_nat :: "nat \<Rightarrow> ustr" where
  "str_nat n = (if n < 10 then [48 + n] else str_nat (n div 10) @ [48 + n mod 10])"

declare str_nat.simps [simp del]

definition decimal :: "int \<Rightarrow> ustr" where
  "decimal i = (if i < 0 then 45 # str_nat (nat (- i)) else str_nat (nat i))"

definition exceeds_digits :: "pyrt \<Rightarrow> int \<Rightarrow> bool" where
  "exceeds_digits rt i \<longleftrightarrow>
     0 < max_str_digits rt \<and> max_str_digits rt < length (str_nat (nat \<bar>i\<bar>))"

definition str_int :: "pyrt \<Rightarrow> int \<Rightarrow> py_error + ustr" where
  "str_int rt i = (if exceeds_digits rt i then Inl ValueError else Inr (decimal i))"

text \<open>\<open>str(v)\<close>: a string is itself, a container or a float is its \<open>repr\<close>.\<close>

fun py_str :: "pyrt \<Rightarrow> json \<Rightarrow> py_error + ustr" where
  "py_str rt (JStr s) = Inr s"
| "py_str rt JNull = Inr (ustr_of ''None'')"
| "py_str rt (JBool b) = Inr (if b then ustr_of ''True'' else ustr_of ''False'')"
| "py_str rt (JInt i) = str_int rt i"
| "py_str rt v = py_repr rt v"

text \<open>\<open>d.get(k)\<close> and \<open>d.get(k, default)\<close> on a dict.\<close>

definition dict_get :: "(ustr \<times> json) list \<Rightarrow> ustr \<Rightarrow> json" where
  "dict_get d k = (case map_of d k of None \<Rightarrow> JNull | Some v \<Rightarrow> v)"

definition dict_get_default :: "(ustr \<times> json) list \<Rightarrow> ustr \<Rightarrow> json \<Rightarrow> json" where
  "dict_get_default d k dflt = (case map_of d k of None \<Rightarrow> dflt | Some v \<Rightarrow> v)"

text \<open>
  What a \<open>for\<close> loop iterates over: the elements of a list, the keys of a dict, the
  characters of a string; any other value is not iterable.
\<close>

fun py_iter :: "json \<Rightarrow> py_error + json list" where
  "py_iter (JArr xs) = Inr xs"
| "py_iter (JObj d) = Inr (map (\<lambda>kv. JStr (fst kv)) d)"
| "py_iter (JStr s) = Inr (map (\<lambda>c. JStr [c]) s)"
| "py_iter v = Inl TypeError"

text \<open>\<open>s.strip()\<close> removes whitespace at both ends.\<close>

definition py_strip :: "pyrt \<Rightarrow> ustr \<Rightarrow> ustr" where
  "py_strip rt s = rev (dropWhile (isspace rt) (rev (dropWhile (isspace rt) s)))"

section \<open>prepare\_training\_dataset.py\<close>

subsection \<open>clean\_text\<close>

text \<open>
  The character class \<open>[^\w\s.,!?\-:;()]\<close> matches a character that is neither a
  word character (alphanumeric or underscore), nor whitespace, nor one of
  \<open>. , ! ? - : ; ( )\<close>.
\<close>

definition kept_char :: "pyrt \<Rightarrow> nat \<Rightarrow> bool" where
  "kept_char rt c \<longleftrightarrow>
     isalnum rt c \<or> c = 95 \<or> isspace rt c \<or> c \<in> set [46, 44, 33, 63, 45, 58, 59, 40, 41]"

text \<open>\<open>re.sub(r'[^\w\s.,!?\-:;()]', ' ', s)\<close>: each other character becomes a space.\<close>

definition sub_special :: "pyrt \<Rightarrow> ustr \<Rightarrow> ustr" where
  "sub_special rt s = map (\<lambda>c. if kept_char rt c then c else 32) s"

text \<open>\<open>re.sub(r'\s+', ' ', s)\<close>: each maximal run of whitespace becomes one space.\<close>

function sub_spaces :: "pyrt \<Rightarrow> ustr \<Rightarrow> ustr" where
  "sub_spaces rt [] = []"
| "sub_spaces rt (c # cs) =
     (if isspace rt c then 32 # sub_spaces rt (dropWhile (isspace rt) cs)
      else c # sub_spaces rt cs)"
  by pat_completeness auto
termination
  by (relation "measure (\<lambda>(rt, s). length s)")
     (auto simp: less_Suc_eq_le length_dropWhile_le)

text \<open>Lines 13 to 16 of \<open>clean_text\<close>, on the string that line 10 or \<open>str\<close> gave.\<close>

definition clean_str :: "pyrt \<Rightarrow> ustr \<Rightarrow> ustr" where
  "clean_str rt s = py_strip rt (sub_spaces rt (sub_special rt s))"

text \<open>
  One element of the list comprehension of line 10: \<open>str(t['text'])\<close> for a dict, which
  raises \<open>KeyError\<close> when the key is missing, and \<open>str(t)\<close> for anything else.
\<close>

definition fragment_text :: "pyrt \<Rightarrow> json \<Rightarrow> py_error + ustr" where
  "fragment_text rt t =
     (case t of
        JObj d \<Rightarrow> (case map_of d (ustr_of ''text'') of
                     None \<Rightarrow> Inl KeyError
                   | Some v \<Rightarrow> py_str rt v)
      | _ \<Rightarrow> py_str rt t)"

fun join_fragments :: "pyrt \<Rightarrow> json list \<Rightarrow> py_error + ustr" where
  "join_fragments rt [] = Inr []"
| "join_fragments rt (t # ts) =
     (case fragment_text rt t of
        Inl e \<Rightarrow> Inl e
      | Inr s \<Rightarrow> (case join_fragments rt ts of
                    Inl e \<Rightarrow> Inl e
                  | Inr r \<Rightarrow> Inr (s @ r)))"

definition clean_text :: "pyrt \<Rightarrow> json \<Rightarrow> py_error + ustr" where
  "clean_text rt text =
     (case (case text of
              JArr ts \<Rightarrow> join_fragments rt ts
            | _ \<Rightarrow> py_str rt text) of
        Inl e \<Rightarrow> Inl e
      | Inr s \<Rightarrow> Inr (clean_str rt s))"

subsection \<open>process\_chat\_file\<close>

text \<open>The dicts of \<open>conversations\<close>; the key \<open>context\<close> is the field \<open>context'\<close>.\<close>

record training_pair =
  context' :: "ustr list"
  response :: ustr
  source_file :: ustr
  chat_name :: json

text \<open>
  The state of the loop of lines 31 to 57: \<open>conversations\<close> and \<open>current_context\<close>.
\<close>

type_synonym extractor_state = "training_pair list \<times> ustr list"

text \<open>
  Lines 54 to 57: \<open>append\<close>, then \<open>pop(0)\<close> when the list is longer than 3.
\<close>

definition append_context :: "ustr list \<Rightarrow> ustr \<Rightarrow> ustr list" where
  "append_context current_context text =
     (let c = current_context @ [text] in if length c > 3 then tl c else c)"

text \<open>
  One iteration of the loop, for the entry \<open>msg\<close>. \<open>msg.get\<close> raises
  \<open>AttributeError\<close> when the entry is not a dict. \<open>fname\<close> is
  \<open>os.path.basename(file_path)\<close> and \<open>cname\<close> is \<open>data.get('name', 'Unknown')\<close>.
\<close>

definition process_msg ::
  "pyrt \<Rightarrow> ustr \<Rightarrow> ustr \<Rightarrow> json \<Rightarrow> extractor_state \<Rightarrow> json \<Rightarrow> py_error + extractor_state"
where
  "process_msg rt your_name fname cname st msg =
     (case st of (conversations, current_context) \<Rightarrow>
      (case msg of
         JObj m \<Rightarrow>
           if dict_get m (ustr_of ''type'') \<noteq> JStr (ustr_of ''message'')
              \<or> map_of m (ustr_of ''text'') = None
           then Inr (conversations, current_context)
           else
             let sender = dict_get_default m (ustr_of ''from'') (JStr [])
             in (case map_of m (ustr_of ''text'') of
                   None \<Rightarrow> Inl KeyError
                 | Some raw \<Rightarrow>
                     (case clean_text rt raw of
                        Inl e \<Rightarrow> Inl e
                      | Inr text \<Rightarrow>
                          if text = [] \<or> length text < 2 \<or> prefix (ustr_of ''http'') text
                          then Inr (conversations, current_context)
                          else if sender = JStr your_name
                          then (if current_context \<noteq> []
                                then Inr (conversations @
                                            [\<lparr>context' = current_context, response = text,
                                              source_file = fname, chat_name = cname\<rparr>],
                                          [])
                                else Inr (conversations, current_context))
                          else Inr (conversations, append_context current_context text)))
       | _ \<Rightarrow> Inl AttributeError))"

text \<open>The loop: the first exception leaves it.\<close>

fun process_messages ::
  "pyrt \<Rightarrow> ustr \<Rightarrow> ustr \<Rightarrow> json \<Rightarrow> extractor_state \<Rightarrow> json list \<Rightarrow> py_error + extractor_state"
where
  "process_messages rt your_name fname cname st [] = Inr st"
| "process_messages rt your_name fname cname st (msg # msgs) =
     (case process_msg rt your_name fname cname st msg of
        Inl e \<Rightarrow> Inl e
      | Inr st' \<Rightarrow> process_messages rt your_name fname cname st' msgs)"

text \<open>
  The body of the \<open>try\<close> block. \<open>rd\<close> is what \<open>open\<close> and \<open>json.load\<close> gave: the
  exception they raised, or the parsed document.
\<close>

definition process_chat_body ::
  "pyrt \<Rightarrow> ustr \<Rightarrow> ustr \<Rightarrow> py_error + json \<Rightarrow> py_error + training_pair list"
where
  "process_chat_body rt your_name fname rd =
     (case rd of
        Inl e \<Rightarrow> Inl e
      | Inr data \<Rightarrow>
          (case data of
             JObj d \<Rightarrow>
               if dict_get d (ustr_of ''type'') \<noteq> JStr (ustr_of ''personal_chat'')
               then Inr []
               else
                 (case py_iter (dict_get_default d (ustr_of ''messages'') (JArr [])) of
                    Inl e \<Rightarrow> Inl e
                  | Inr msgs \<Rightarrow>
                      (case process_messages rt your_name fname
                              (dict_get_default d (ustr_of ''name'') (JStr (ustr_of ''Unknown'')))
                              ([], []) msgs of
                         Inl e \<Rightarrow> Inl e
                       | Inr st \<Rightarrow> Inr (fst st)))
           | _ \<Rightarrow> Inl AttributeError))"

subsection \<open>Output\<close>

text \<open>The statistics that \<open>create_training_dataset\<close> builds.\<close>

record statistics =
  total_conversations :: nat
  processed_files :: nat
  total_files :: nat
  chat_sources :: "(ustr \<times> nat) list"
  context_lengths :: "nat list"
  response_lengths :: "nat list"

text \<open>
  The messages the module prints before its two files are written: the warning of line
  62 (for a file, named here by its base name, and the exception caught), and lines 72,
  82, 88, 90, 92, 93, 94 and 101 of \<open>create_training_dataset\<close>.
\<close>

datatype printed =
    ChatFileError ustr py_error
  | FolderNotFound
  | Processing ustr
  | DialogsFound nat
  | DialogsNotFound
  | ResultHeader
  | FilesProcessed nat nat
  | DialogsTotal nat
  | DatasetSaved

text \<open>
  The process's surroundings: \<open>print\<close> raises when standard output cannot take the
  message (an encoding that lacks a character, a closed pipe), and writing a file can
  raise. Each gives the exception raised, if any.
\<close>

record pyio =
  print_raises :: "printed \<Rightarrow> py_error option"
  dump_dataset_raises :: "training_pair list \<Rightarrow> py_error option"
  dump_statistics_raises :: "statistics \<Rightarrow> py_error option"

text \<open>Surroundings in which nothing raises, for evaluating examples.\<close>

definition demo_io :: pyio where
  "demo_io = \<lparr>print_raises = (\<lambda>m. None), dump_dataset_raises = (\<lambda>c. None),
               dump_statistics_raises = (\<lambda>s. None)\<rparr>"

text \<open>
  \<open>process_chat_file\<close>: the \<open>except Exception\<close> clause prints the exception and
  returns the empty list; an exception of that \<open>print\<close> leaves the function. The
  result is the returned list together with the printed warning, if there was one.
\<close>

definition process_chat_file ::
  "pyrt \<Rightarrow> pyio \<Rightarrow> ustr \<Rightarrow> ustr \<Rightarrow> py_error + json
     \<Rightarrow> py_error + training_pair list \<times> py_error option"
where
  "process_chat_file rt io your_name fname rd =
     (case process_chat_body rt your_name fname rd of
        Inl e \<Rightarrow>
          (case print_raises io (ChatFileError fname e) of
             Some raised \<Rightarrow> Inl raised
           | None \<Rightarrow> Inr ([], Some e))
      | Inr conversations \<Rightarrow> Inr (conversations, None))"

subsection \<open>create\_training\_dataset\<close>

text \<open>
  Lines 113 to 120, one pair at a time. The dict \<open>chat_sources\<close> keeps its keys in
  insertion order, as \<open>AList.update\<close> does.
\<close>

definition count_conv :: "statistics \<Rightarrow> training_pair \<Rightarrow> statistics" where
  "count_conv stats conv =
     (let source = source_file conv
      in stats
         \<lparr>chat_sources :=
            AList.update source
              ((case map_of (chat_sources stats) source of None \<Rightarrow> 0 | Some n \<Rightarrow> n) + 1)
              (chat_sources stats),
          context_lengths := context_lengths stats @ [length (context' conv)],
          response_lengths := response_lengths stats @ [length (response conv)]\<rparr>)"

fun count_convs :: "statistics \<Rightarrow> training_pair list \<Rightarrow> statistics" where
  "count_convs stats [] = stats"
| "count_convs stats (conv # convs) = count_convs (count_conv stats conv) convs"

definition make_stats :: "training_pair list \<Rightarrow> nat \<Rightarrow> nat \<Rightarrow> statistics" where
  "make_stats all_conversations n_processed n_total =
     count_convs
       \<lparr>total_conversations = length all_conversations,
        processed_files = n_processed,
        total_files = n_total,
        chat_sources = [],
        context_lengths = [],
        response_lengths = []\<rparr>
       all_conversations"

text \<open>
  Lines 80 to 90: every file of the folder goes through \<open>process_chat_file\<close> with the
  default owner name. A file is its base name and what reading it gave;
  \<open>n_total\<close> and \<open>n_processed\<close> are the counters \<open>total_files\<close> and
  \<open>processed_files\<close>. An exception of a \<open>print\<close> or of \<open>process_chat_file\<close> leaves
  the loop.
\<close>

type_synonym chat_file = "ustr \<times> (py_error + json)"

fun scan_files ::
  "pyrt \<Rightarrow> pyio \<Rightarrow> training_pair list \<times> nat \<times> nat \<Rightarrow> chat_file list
     \<Rightarrow> py_error + training_pair list \<times> nat \<times> nat"
where
  "scan_files rt io acc [] = Inr acc"
| "scan_files rt io acc (f # fs) =
     (case acc of (all_conversations, n_total, n_processed) \<Rightarrow>
        (case print_raises io (Processing (fst f)) of
           Some raised \<Rightarrow> Inl raised
         | None \<Rightarrow>
             (case process_chat_file rt io (ustr_of ''Andrey'') (fst f) (snd f) of
                Inl raised \<Rightarrow> Inl raised
              | Inr (conversations, warning) \<Rightarrow>
                  if conversations \<noteq> []
                  then (case print_raises io (DialogsFound (length conversations)) of
                          Some raised \<Rightarrow> Inl raised
                        | None \<Rightarrow>
                            scan_files rt io
                              (all_conversations @ conversations, n_total + 1, n_processed + 1)
                              fs)
                  else (case print_raises io DialogsNotFound of
                          Some raised \<Rightarrow> Inl raised
                        | None \<Rightarrow>
                            scan_files rt io (all_conversations, n_total + 1, n_processed) fs))))"

text \<open>Several \<open>print\<close> calls in a row: the first exception, if any.\<close>

fun print_all :: "pyio \<Rightarrow> printed list \<Rightarrow> py_error option" where
  "print_all io [] = None"
| "print_all io (m # ms) =
     (case print_raises io m of Some raised \<Rightarrow> Some raised | None \<Rightarrow> print_all io ms)"

text \<open>
  The outcome of a run, up to the moment the second file is closed: the folder is
  missing, no dialogue was found, the data set and its statistics were written, or an
  exception ended the run before that (with the data set, when that file had been
  written already). The messages printed after the outcome is decided (line 126 and
  lines 128 to 155) write no file and are left out.
\<close>

datatype run_result =
    FolderMissing
  | NoDialogs
  | Written "training_pair list" statistics
  | Aborted py_error "training_pair list option"

definition create_training_dataset :: "pyrt \<Rightarrow> pyio \<Rightarrow> chat_file list option \<Rightarrow> run_result" where
  "create_training_dataset rt io folder =
     (case folder of
        None \<Rightarrow>
          (case print_raises io FolderNotFound of
             Some raised \<Rightarrow> Aborted raised None
           | None \<Rightarrow> FolderMissing)
      | Some files \<Rightarrow>
          (case scan_files rt io ([], 0, 0) files of
             Inl raised \<Rightarrow> Aborted raised None
           | Inr (all_conversations, n_total, n_processed) \<Rightarrow>
               (case print_all io [ResultHeader, FilesProcessed n_processed n_total,
                                   DialogsTotal (length all_conversations)] of
                  Some raised \<Rightarrow> Aborted raised None
                | None \<Rightarrow>
                    if all_conversations \<noteq> []
                    then
                      (case dump_dataset_raises io all_conversations of
                         Some raised \<Rightarrow> Aborted raised None
                       | None \<Rightarrow>
                           (case print_raises io DatasetSaved of
                              Some raised \<Rightarrow> Aborted raised (Some all_conversations)
                            | None \<Rightarrow>
                                let stats = make_stats all_conversations n_processed n_total
                                in (case dump_statistics_raises io stats of
                                      Some raised \<Rightarrow> Aborted raised (Some all_conversations)
                                    | None \<Rightarrow> Written all_conversations stats)))
                    else NoDialogs)))"

section \<open>generator.py\<close>

subsection \<open>String constants\<close>

text \<open>
  The literals of \<open>generate_response\<close>, as code points: the self marker (the
  Cyrillic letters U+0412 and U+044B, a colon and a space), the interlocutor marker
  with its colon and space, and the reply given when generation fails.
\<close>

definition self_marker :: ustr where
  "self_marker = [1042, 1099, 58, 32]"

definition interlocutor_marker :: ustr where
  "interlocutor_marker = [1057, 1086, 1073, 1077, 1089, 1077, 1076, 1085, 1080, 1082, 58, 32]"

definition fallback_reply :: ustr where
  "fallback_reply =
     [1048, 1079, 1074, 1080, 1085, 1080, 1090, 1077, 44, 32, 1085, 1077, 32,
      1091, 1076, 1072, 1083, 1086, 1089, 1100, 32,
      1089, 1075, 1077, 1085, 1077, 1088, 1080, 1088, 1086, 1074, 1072, 1090, 1100, 32,
      1086, 1090, 1074, 1077, 1090, 46]"

subsection \<open>str.split and the reply extraction\<close>

text \<open>
  \<open>s.split(sep)\<close>: the string is scanned from the left, each occurrence of \<open>sep\<close>
  ends a piece and the scan goes on behind it. \<open>piece\<close> holds the characters of the
  current piece, last one first. An empty separator raises \<open>ValueError\<close>.
\<close>

function split_from :: "ustr \<Rightarrow> ustr \<Rightarrow> ustr \<Rightarrow> ustr list" where
  "split_from sep piece [] = [rev piece]"
| "split_from sep piece (c # cs) =
     (if prefix sep (c # cs)
      then rev piece # split_from sep [] (drop (length sep - 1) cs)
      else split_from sep (c # piece) cs)"
  by pat_completeness auto
termination
  by (relation "measure (\<lambda>(sep, piece, s). length s)") auto

definition py_split :: "ustr \<Rightarrow> ustr \<Rightarrow> py_error + ustr list" where
  "py_split s sep = (if sep = [] then Inl ValueError else Inr (split_from sep [] s))"

text \<open>\<open>xs[-1]\<close> raises \<open>IndexError\<close> on an empty list.\<close>

definition py_last :: "'a list \<Rightarrow> py_error + 'a" where
  "py_last xs = (if xs = [] then Inl IndexError else Inr (last xs))"

text \<open>\<open>sep in s\<close> for two strings.\<close>

definition py_contains :: "ustr \<Rightarrow> ustr \<Rightarrow> bool" where
  "py_contains sep s \<longleftrightarrow> (\<exists>i \<in> set [0..<Suc (length s)]. prefix sep (drop i s))"

text \<open>Lines 98 to 101 of \<open>generate_response\<close>, on the decoded text.\<close>

definition extract_reply :: "pyrt \<Rightarrow> ustr \<Rightarrow> py_error + ustr" where
  "extract_reply rt full_response =
     (if py_contains self_marker full_response
      then (case py_split full_response self_marker of
              Inl e \<Rightarrow> Inl e
            | Inr pieces \<Rightarrow> (case py_last pieces of
                               Inl e \<Rightarrow> Inl e
                             | Inr p \<Rightarrow> Inr (py_strip rt p)))
      else Inr (py_strip rt full_response))"

subsection \<open>MessageGenerator\<close>

text \<open>
  Of a generator object the code reads only whether \<open>self.model\<close> and
  \<open>self.tokenizer\<close> are set.
\<close>

record generator =
  model_loaded :: bool
  tokenizer_loaded :: bool

text \<open>
  Lines 66 to 68: one line per context message, then the open self marker.
\<close>

definition dialog_text :: "ustr list \<Rightarrow> ustr" where
  "dialog_text context_messages =
     concat (map (\<lambda>msg. interlocutor_marker @ msg @ [10]) context_messages) @ self_marker"

text \<open>
  The tokenizer, the model and the decoder are external. \<open>infer\<close> stands for lines 73
  to 95: from the prompt, \<open>max_length\<close>, the temperature and the state of the
  world (the sampler is random) it gives the decoded text or the exception raised, and
  the next state of the world. The temperature is a Python float; it only travels to
  the external call and is a real number here.
\<close>

type_synonym 'w inference = "ustr \<Rightarrow> nat \<Rightarrow> real \<Rightarrow> 'w \<Rightarrow> (py_error + ustr) \<times> 'w"

definition generate_response ::
  "pyrt \<Rightarrow> 'w inference \<Rightarrow> generator \<Rightarrow> ustr list \<Rightarrow> nat \<Rightarrow> real \<Rightarrow> 'w \<Rightarrow> (py_error + ustr) \<times> 'w"
where
  "generate_response rt infer self context_messages max_length temperature w =
     (if \<not> model_loaded self \<or> \<not> tokenizer_loaded self
      then (Inl RuntimeError, w)
      else
        (case infer (dialog_text context_messages) max_length temperature w of
           (Inl e, w') \<Rightarrow> (Inr fallback_reply, w')
         | (Inr full_response, w') \<Rightarrow>
             (case extract_reply rt full_response of
                Inl e \<Rightarrow> (Inr fallback_reply, w')
              | Inr your_response \<Rightarrow> (Inr your_response, w'))))"

text \<open>
  The loop of \<open>generate_multiple_responses\<close> over \<open>range(num_responses)\<close>; an
  exception of \<open>generate_response\<close> leaves it.
\<close>

fun responses_loop ::
  "pyrt \<Rightarrow> 'w inference \<Rightarrow> generator \<Rightarrow> ustr list \<Rightarrow> real \<Rightarrow> ustr list \<Rightarrow> nat list \<Rightarrow> 'w
     \<Rightarrow> (py_error + ustr list) \<times> 'w"
where
  "responses_loop rt infer self context_messages temperature responses [] w = (Inr responses, w)"
| "responses_loop rt infer self context_messages temperature responses (i # is) w =
     (let temp = temperature + real i * (1 / 10)
      in (case generate_response rt infer self context_messages 100 temp w of
            (Inl e, w') \<Rightarrow> (Inl e, w')
          | (Inr response', w') \<Rightarrow>
              responses_loop rt infer self context_messages temperature
                (responses @ [response']) is w'))"

definition generate_multiple_responses ::
  "pyrt \<Rightarrow> 'w inference \<Rightarrow> generator \<Rightarrow> ustr list \<Rightarrow> int \<Rightarrow> real \<Rightarrow> 'w \<Rightarrow> (py_error + ustr list) \<times> 'w"
where
  "generate_multiple_responses rt infer self context_messages num_responses temperature w =
     responses_loop rt infer self context_messages temperature [] [0..<nat num_responses] w"

section \<open>Notions used in the statements\<close>

text \<open>
  A string is in collapsed form when each of its whitespace characters is the space
  character and is followed by no whitespace character.
\<close>

fun collapsed :: "pyrt \<Rightarrow> ustr \<Rightarrow> bool" where
  "collapsed rt [] = True"
| "collapsed rt (c # cs) =
     ((if isspace rt c then c = 32 \<and> (cs = [] \<or> \<not> isspace rt (hd cs)) else True)
      \<and> collapsed rt cs)"

text \<open>
  An entry that the loop of \<open>process_chat_file\<close> appends to the context window: a
  dict of type \<open>message\<close> with a text whose cleaned form \<open>text\<close> passes the filter of
  line 39, and whose sender is not the owner.
\<close>

definition interlocutor_entry :: "pyrt \<Rightarrow> ustr \<Rightarrow> json \<Rightarrow> ustr \<Rightarrow> bool" where
  "interlocutor_entry rt your_name msg text \<longleftrightarrow>
     (case msg of
        JObj m \<Rightarrow>
          dict_get m (ustr_of ''type'') = JStr (ustr_of ''message'')
          \<and> (case map_of m (ustr_of ''text'') of
                None \<Rightarrow> False
              | Some raw \<Rightarrow> clean_text rt raw = Inr text)
          \<and> 2 \<le> length text
          \<and> \<not> prefix (ustr_of ''http'') text
          \<and> dict_get_default m (ustr_of ''from'') (JStr []) \<noteq> JStr your_name
      | _ \<Rightarrow> False)"

text \<open>
  Example values, shaped as an export has them: a message entry with a sender, one with
  no \<open>from\<close> field, and a personal chat named Bob.
\<close>

definition message_entry :: "string \<Rightarrow> string \<Rightarrow> json" where
  "message_entry sender txt =
     JObj [(ustr_of ''type'', JStr (ustr_of ''message'')),
           (ustr_of ''from'', JStr (ustr_of sender)),
           (ustr_of ''text'', JStr (ustr_of txt))]"

definition anonymous_entry :: "string \<Rightarrow> json" where
  "anonymous_entry txt =
     JObj [(ustr_of ''type'', JStr (ustr_of ''message'')),
           (ustr_of ''text'', JStr (ustr_of txt))]"

definition personal_chat_of :: "json list \<Rightarrow> json" where
  "personal_chat_of msgs =
     JObj [(ustr_of ''name'', JStr (ustr_of ''Bob'')),
           (ustr_of ''type'', JStr (ustr_of ''personal_chat'')),
           (ustr_of ''messages'', JArr msgs)]"

text \<open>
  What holds of every pair \<open>process_chat_file\<close> emits for the file \<open>fname\<close>: its context
  has between 1 and 3 texts and its source is that file.
\<close>

definition pair_ok :: "ustr \<Rightarrow> training_pair \<Rightarrow> bool" where
  "pair_ok fname p \<longleftrightarrow> context' p \<noteq> [] \<and> length (context' p) \<le> 3 \<and> source_file p = fname"

text \<open>The separator \<open>sep\<close> occurs in \<open>s\<close> at position \<open>i\<close>.\<close>

definition occurs_at :: "ustr \<Rightarrow> ustr \<Rightarrow> nat \<Rightarrow> bool" where
  "occurs_at sep s i \<longleftrightarrow> i \<le> length s \<and> prefix sep (drop i s)"






text \<open>The list a call of \<open>process_chat_file\<close> returned; none when it raised.\<close>

definition returned_pairs ::
  "py_error + training_pair list \<times> py_error option \<Rightarrow> training_pair list" where
  "returned_pairs r = (case r of Inl e \<Rightarrow> [] | Inr (conversations, warning) \<Rightarrow> conversations)"

section \<open>The normalizer\<close>

text \<open>The equations that evaluate an example.\<close>

lemmas demo_eval =
  clean_text_def clean_str_def py_strip_def sub_special_def kept_char_def demo_rt_def
  demo_isspace_def demo_isalnum_def ustr_of_def dict_get_def dict_get_default_def
  message_entry_def anonymous_entry_def personal_chat_of_def

lemma sub_spaces_head:
  "s = [] \<or> \<not> isspace rt (hd s) \<Longrightarrow> sub_spaces rt s = [] \<or> \<not> isspace rt (hd (sub_spaces rt s))"
  by (cases s) auto

lemma dropWhile_head: "dropWhile P s = [] \<or> \<not> P (hd (dropWhile P s))"
  using hd_dropWhile by blast

lemma collapsed_sub_spaces: "collapsed rt (sub_spaces rt s)"
proof (induction rt s rule: sub_spaces.induct)
  case (1 rt)
  show ?case by simp
next
  case (2 rt c cs)
  show ?case
  proof (cases "isspace rt c")
    case True
    have "sub_spaces rt (dropWhile (isspace rt) cs) = []
          \<or> \<not> isspace rt (hd (sub_spaces rt (dropWhile (isspace rt) cs)))"
      by (rule sub_spaces_head) (rule dropWhile_head)
    with True 2 show ?thesis by simp
  next
    case False
    with 2 show ?thesis by simp
  qed
qed

lemma sub_spaces_collapsed: "collapsed rt s \<Longrightarrow> sub_spaces rt s = s"
proof (induction rt s rule: sub_spaces.induct)
  case (1 rt)
  show ?case by simp
next
  case (2 rt c cs)
  show ?case
  proof (cases "isspace rt c")
    case True
    with 2(3) have c: "c = 32" and h: "cs = [] \<or> \<not> isspace rt (hd cs)" and r: "collapsed rt cs"
      by simp_all
    from h have d: "dropWhile (isspace rt) cs = cs" by (cases cs) auto
    from 2(1) True d r have "sub_spaces rt cs = cs" by simp
    with True c d show ?thesis by simp
  next
    case False
    with 2 show ?thesis by simp
  qed
qed

lemma collapsed_append: "collapsed rt (xs @ ys) \<Longrightarrow> collapsed rt xs \<and> collapsed rt ys"
  by (induction xs) (auto simp: hd_append split: if_splits)

lemma collapsed_dropWhile: "collapsed rt s \<Longrightarrow> collapsed rt (dropWhile P s)"
  using collapsed_append [of rt "takeWhile P s" "dropWhile P s"] by simp

lemma collapsed_rev_dropWhile_rev: "collapsed rt s \<Longrightarrow> collapsed rt (rev (dropWhile P (rev s)))"
proof -
  assume a: "collapsed rt s"
  have "s = rev (dropWhile P (rev s)) @ rev (takeWhile P (rev s))"
    by (metis rev_append rev_rev_ident takeWhile_dropWhile_id)
  with a collapsed_append [of rt "rev (dropWhile P (rev s))" "rev (takeWhile P (rev s))"]
  show ?thesis by simp
qed

lemma collapsed_py_strip: "collapsed rt s \<Longrightarrow> collapsed rt (py_strip rt s)"
  unfolding py_strip_def by (intro collapsed_rev_dropWhile_rev collapsed_dropWhile)

lemma py_strip_idem: "py_strip rt (py_strip rt s) = py_strip rt s"
proof -
  define a where "a = dropWhile (isspace rt) s"
  define b where "b = dropWhile (isspace rt) (rev a)"
  have ha: "a = [] \<or> \<not> isspace rt (hd a)" unfolding a_def by (rule dropWhile_head)
  have "suffix b (rev a)" unfolding b_def by (rule suffix_dropWhile)
  then obtain z where z: "rev a = z @ b" by (auto simp: suffix_def)
  have "b = [] \<or> \<not> isspace rt (last b)"
  proof (cases "b = []")
    case True then show ?thesis by simp
  next
    case False
    with z have "last b = last (rev a)" by simp
    also have "\<dots> = hd a" by (rule last_rev)
    finally show ?thesis using ha False z by auto
  qed
  then have "dropWhile (isspace rt) (rev b) = rev b"
    by (cases "rev b") (auto simp: hd_rev)
  moreover have "dropWhile (isspace rt) b = b" unfolding b_def by simp
  ultimately show ?thesis
    unfolding py_strip_def a_def [symmetric] b_def [symmetric] by simp
qed

lemma set_py_strip: "set (py_strip rt s) \<subseteq> set s"
  unfolding py_strip_def
  by (metis (no_types, lifting) set_dropWhileD set_rev subsetI)

lemma set_sub_spaces: "set (sub_spaces rt s) \<subseteq> insert 32 (set s)"
  by (induction rt s rule: sub_spaces.induct) (auto dest: set_dropWhileD)

lemma sub_special_fixed: "\<forall>c \<in> set s. kept_char rt c \<or> c = 32 \<Longrightarrow> sub_special rt s = s"
  unfolding sub_special_def by (induction s) auto

lemma set_sub_special: "\<forall>c \<in> set (sub_special rt s). kept_char rt c \<or> c = 32"
  unfolding sub_special_def by auto

lemma clean_str_idem: "clean_str rt (clean_str rt s) = clean_str rt s"
proof -
  let ?r = "clean_str rt s"
  have chars: "\<forall>c \<in> set ?r. kept_char rt c \<or> c = 32"
    unfolding clean_str_def
    using set_py_strip [of rt "sub_spaces rt (sub_special rt s)"]
      set_sub_spaces [of rt "sub_special rt s"] set_sub_special [of rt s]
    by blast
  have coll: "collapsed rt ?r"
    unfolding clean_str_def by (intro collapsed_py_strip collapsed_sub_spaces)
  have "clean_str rt ?r = py_strip rt (sub_spaces rt ?r)"
    using sub_special_fixed [OF chars] by (simp add: clean_str_def)
  also have "\<dots> = py_strip rt ?r" using sub_spaces_collapsed [OF coll] by simp
  also have "\<dots> = ?r" unfolding clean_str_def by (rule py_strip_idem)
  finally show ?thesis .
qed

lemma clean_text_JStr: "clean_text rt (JStr s) = Inr (clean_str rt s)"
  by (simp add: clean_text_def)







lemma join_fragments_append:
  "join_fragments rt (pre @ rest) =
     (case join_fragments rt pre of
        Inl e \<Rightarrow> Inl e
      | Inr s \<Rightarrow> (case join_fragments rt rest of Inl e \<Rightarrow> Inl e | Inr r \<Rightarrow> Inr (s @ r)))"
  by (induction pre) (auto split: sum.splits)


lemma join_fragments_raises:
  assumes "fragment_text rt bad = Inl e"
  shows "\<exists>e'. join_fragments rt (pre @ bad # post) = Inl e'"
  using assms by (cases "join_fragments rt pre") (simp_all add: join_fragments_append)

lemma fragment_text_no_text:
  "map_of d (ustr_of ''text'') = None \<Longrightarrow> fragment_text rt (JObj d) = Inl KeyError"
  by (simp add: fragment_text_def)

lemma clean_text_raises_without_text:
  assumes "map_of d (ustr_of ''text'') = None"
  shows "\<exists>e. clean_text rt (JArr (pre @ JObj d # post)) = Inl e"
  using join_fragments_raises [OF fragment_text_no_text [OF assms], of rt pre post]
  by (auto simp: clean_text_def)

text \<open>
  C6: \<open>clean_text\<close> is idempotent: for every string \<open>x\<close> it returns a string \<open>y\<close>, and
  applied to \<open>y\<close> it returns \<open>y\<close> again.
\<close>

theorem clean_text_idempotent:
  "\<exists>y. clean_text rt (JStr x) = Inr y \<and> clean_text rt (JStr y) = Inr y"
  by (simp add: clean_text_JStr clean_str_idem)

theorem clean_text_idempotent_witness:
  "clean_text demo_rt (JStr (ustr_of ''  Hi,   there #1 '')) = Inr (ustr_of ''Hi, there 1'') \<and>
   clean_text demo_rt (JStr (ustr_of ''Hi, there 1'')) = Inr (ustr_of ''Hi, there 1'')"
proof -
  have "clean_text demo_rt (JStr (ustr_of ''  Hi,   there #1 '')) = Inr (ustr_of ''Hi, there 1'')"
    by (simp add: demo_eval)
  with clean_text_idempotent [of demo_rt "ustr_of ''  Hi,   there #1 ''"]
  show ?thesis by simp
qed




section \<open>The extractor\<close>

lemma process_msg_surviving:
  assumes "dict_get m (ustr_of ''type'') = JStr (ustr_of ''message'')"
    and "map_of m (ustr_of ''text'') = Some raw"
    and "clean_text rt raw = Inr text"
    and "2 \<le> length text"
    and "\<not> prefix (ustr_of ''http'') text"
  shows "process_msg rt your_name fname cname (conversations, current_context) (JObj m) =
           (if dict_get_default m (ustr_of ''from'') (JStr []) = JStr your_name
            then (if current_context \<noteq> []
                  then Inr (conversations @
                              [\<lparr>context' = current_context, response = text,
                                source_file = fname, chat_name = cname\<rparr>], [])
                  else Inr (conversations, current_context))
            else Inr (conversations, append_context current_context text))"
proof -
  from assms(4) have "text \<noteq> []" by auto
  with assms show ?thesis by (simp add: process_msg_def)
qed

lemma process_msg_discarded:
  assumes "map_of m (ustr_of ''text'') = Some raw"
    and "clean_text rt raw = Inr text"
    and "length text < 2 \<or> prefix (ustr_of ''http'') text"
  shows "process_msg rt your_name fname cname st (JObj m) = Inr st"
  using assms by (cases st) (auto simp: process_msg_def)

lemma process_messages_append:
  "process_messages rt your_name fname cname st (xs @ ys) =
     (case process_messages rt your_name fname cname st xs of
        Inl e \<Rightarrow> Inl e
      | Inr st' \<Rightarrow> process_messages rt your_name fname cname st' ys)"
  by (induction xs arbitrary: st) (auto split: sum.splits)

lemma append_context_drop:
  "length ctx \<le> 3 \<Longrightarrow> append_context ctx t = drop (length (ctx @ [t]) - 3) (ctx @ [t])"
proof -
  assume "length ctx \<le> 3"
  then consider "length ctx = 3" | "length ctx < 3" by linarith
  then show ?thesis
    by cases (cases ctx; auto simp: append_context_def Let_def drop_Suc)+
qed

lemma append_context_length: "length ctx \<le> 3 \<Longrightarrow> length (append_context ctx t) \<le> 3"
  by (auto simp: append_context_def Let_def)

lemma foldl_append_context:
  "length ctx \<le> 3 \<Longrightarrow>
     foldl append_context ctx ts = drop (length (ctx @ ts) - 3) (ctx @ ts)"
proof (induction ts arbitrary: ctx)
  case Nil
  then show ?case by simp
next
  case (Cons t ts)
  let ?k = "length (ctx @ [t]) - 3"
  have len: "length (append_context ctx t) \<le> 3"
    using Cons.prems by (rule append_context_length)
  have "foldl append_context ctx (t # ts) = foldl append_context (append_context ctx t) ts"
    by simp
  also have "\<dots> = drop (length (append_context ctx t @ ts) - 3) (append_context ctx t @ ts)"
    using len by (rule Cons.IH)
  also have "append_context ctx t = drop ?k (ctx @ [t])"
    using Cons.prems by (rule append_context_drop)
  also have "drop ?k (ctx @ [t]) @ ts = drop ?k (ctx @ t # ts)"
    by simp
  also have "drop (length (drop ?k (ctx @ t # ts)) - 3) (drop ?k (ctx @ t # ts))
               = drop (length (ctx @ t # ts) - 3) (ctx @ t # ts)"
  proof -
    have "length (drop ?k (ctx @ t # ts)) - 3 + ?k = length (ctx @ t # ts) - 3"
      using Cons.prems by auto
    then show ?thesis by (simp only: drop_drop)
  qed
  finally show ?case .
qed

lemma process_messages_interlocutors:
  assumes "list_all2 (interlocutor_entry rt your_name) msgs texts"
  shows "process_messages rt your_name fname cname (conversations, ctx) msgs =
           Inr (conversations, foldl append_context ctx texts)"
  using assms
proof (induction msgs texts arbitrary: ctx rule: list_all2_induct)
  case Nil
  show ?case by simp
next
  case (Cons msg msgs t texts)
  from Cons.hyps(1) obtain m raw where m: "msg = JObj m"
    and ty: "dict_get m (ustr_of ''type'') = JStr (ustr_of ''message'')"
    and raw: "map_of m (ustr_of ''text'') = Some raw"
    and cl: "clean_text rt raw = Inr t"
    and len: "2 \<le> length t"
    and http: "\<not> prefix (ustr_of ''http'') t"
    and snd: "dict_get_default m (ustr_of ''from'') (JStr []) \<noteq> JStr your_name"
    by (auto simp: interlocutor_entry_def split: json.splits option.splits)
  have "process_msg rt your_name fname cname (conversations, ctx) msg =
          Inr (conversations, append_context ctx t)"
    unfolding m using process_msg_surviving [OF ty raw cl len http] snd by simp
  with Cons.IH show ?case by simp
qed

text \<open>
  C1: an entry that passes the filter and whose sender is the owner emits a pair,
  holding the current context window and the cleaned text of the entry, exactly when
  the window is not empty, and the window is then empty; when the window is empty the
  state of the extractor stays as it is. This holds at every position of a chat log:
  after any entries \<open>pre\<close> that the loop went through.
\<close>

theorem owner_entry_emits_iff_window_nonempty:
  assumes "dict_get m (ustr_of ''type'') = JStr (ustr_of ''message'')"
    and "map_of m (ustr_of ''text'') = Some raw"
    and "clean_text rt raw = Inr cleaned"
    and "2 \<le> length cleaned"
    and "\<not> prefix (ustr_of ''http'') cleaned"
    and "dict_get_default m (ustr_of ''from'') (JStr []) = JStr your_name"
  shows "process_msg rt your_name fname cname (conversations, current_context) (JObj m) =
           Inr (if current_context \<noteq> []
                then (conversations @
                        [\<lparr>context' = current_context, response = cleaned,
                          source_file = fname, chat_name = cname\<rparr>], [])
                else (conversations, current_context))
         \<and> process_messages rt your_name fname cname st (pre @ [JObj m]) =
             (case process_messages rt your_name fname cname st pre of
                Inl e \<Rightarrow> Inl e
              | Inr (convs, ctx) \<Rightarrow>
                  Inr (if ctx \<noteq> []
                       then (convs @ [\<lparr>context' = ctx, response = cleaned,
                                       source_file = fname, chat_name = cname\<rparr>], [])
                       else (convs, ctx)))"
proof -
  have step: "process_msg rt your_name fname cname (cs, cx) (JObj m) =
           Inr (if cx \<noteq> []
                then (cs @ [\<lparr>context' = cx, response = cleaned,
                              source_file = fname, chat_name = cname\<rparr>], [])
                else (cs, cx))" for cs cx
    using process_msg_surviving [OF assms(1-5), of your_name fname cname cs cx] assms(6)
    by simp
  show ?thesis
    by (auto simp: step process_messages_append split: sum.splits)
qed

theorem owner_entry_emits_iff_window_nonempty_witness:
  "process_msg demo_rt (ustr_of ''Andrey'') (ustr_of ''a.json'') (JStr (ustr_of ''Bob''))
     ([], [ustr_of ''hello'']) (message_entry ''Andrey'' ''fine,  thanks'')
     = Inr ([\<lparr>context' = [ustr_of ''hello''], response = ustr_of ''fine, thanks'',
              source_file = ustr_of ''a.json'', chat_name = JStr (ustr_of ''Bob'')\<rparr>], [])
   \<and> process_msg demo_rt (ustr_of ''Andrey'') (ustr_of ''a.json'') (JStr (ustr_of ''Bob''))
     ([], []) (message_entry ''Andrey'' ''fine,  thanks'')
     = Inr ([], [])"
proof -
  have 1: "dict_get [(ustr_of ''type'', JStr (ustr_of ''message'')),
                     (ustr_of ''from'', JStr (ustr_of ''Andrey'')),
                     (ustr_of ''text'', JStr (ustr_of ''fine,  thanks''))] (ustr_of ''type'')
           = JStr (ustr_of ''message'')"
    by (simp add: demo_eval)
  have 2: "map_of [(ustr_of ''type'', JStr (ustr_of ''message'')),
                   (ustr_of ''from'', JStr (ustr_of ''Andrey'')),
                   (ustr_of ''text'', JStr (ustr_of ''fine,  thanks''))] (ustr_of ''text'')
           = Some (JStr (ustr_of ''fine,  thanks''))"
    by (simp add: demo_eval)
  have 3: "clean_text demo_rt (JStr (ustr_of ''fine,  thanks'')) = Inr (ustr_of ''fine, thanks'')"
    by (simp add: demo_eval)
  have 4: "2 \<le> length (ustr_of ''fine, thanks'')"
    by (simp add: demo_eval)
  have 5: "\<not> prefix (ustr_of ''http'') (ustr_of ''fine, thanks'')"
    by (simp add: demo_eval)
  have 6: "dict_get_default [(ustr_of ''type'', JStr (ustr_of ''message'')),
                     (ustr_of ''from'', JStr (ustr_of ''Andrey'')),
                     (ustr_of ''text'', JStr (ustr_of ''fine,  thanks''))] (ustr_of ''from'') (JStr [])
           = JStr (ustr_of ''Andrey'')"
    by (simp add: demo_eval)
  show ?thesis
    using owner_entry_emits_iff_window_nonempty [OF 1 2 3 4 5 6,
        of "ustr_of ''a.json''" "JStr (ustr_of ''Bob'')" "[]" "[ustr_of ''hello'']"]
      owner_entry_emits_iff_window_nonempty [OF 1 2 3 4 5 6,
        of "ustr_of ''a.json''" "JStr (ustr_of ''Bob'')" "[]" "[]"]
    by (simp add: message_entry_def)
qed

text \<open>
  C2: entries that are appended one after the other, with no pair emitted in between,
  leave a context window of at most 3 elements: the last 3 (or fewer) of the texts the
  window held or received, in the order they were appended.
\<close>

theorem context_window_holds_last_three:
  assumes "list_all2 (interlocutor_entry rt your_name) msgs texts"
    and "length current_context \<le> 3"
  shows "\<exists>window.
           process_messages rt your_name fname cname (conversations, current_context) msgs
             = Inr (conversations, window)
           \<and> length window \<le> 3
           \<and> window = drop (length (current_context @ texts) - 3) (current_context @ texts)"
proof -
  have "process_messages rt your_name fname cname (conversations, current_context) msgs
          = Inr (conversations, foldl append_context current_context texts)"
    using assms(1) by (rule process_messages_interlocutors)
  moreover have "foldl append_context current_context texts
          = drop (length (current_context @ texts) - 3) (current_context @ texts)"
    using assms(2) by (rule foldl_append_context)
  ultimately show ?thesis by auto
qed

theorem context_window_holds_last_three_witness:
  "process_messages demo_rt (ustr_of ''Andrey'') (ustr_of ''a.json'') (JStr (ustr_of ''Bob''))
     ([], [])
     [message_entry ''Bob'' ''one'', message_entry ''Bob'' ''two'', anonymous_entry ''three'',
      message_entry ''Bob'' ''four'']
     = Inr ([], [ustr_of ''two'', ustr_of ''three'', ustr_of ''four''])"
proof -
  have h: "list_all2 (interlocutor_entry demo_rt (ustr_of ''Andrey''))
     [message_entry ''Bob'' ''one'', message_entry ''Bob'' ''two'', anonymous_entry ''three'',
      message_entry ''Bob'' ''four'']
     [ustr_of ''one'', ustr_of ''two'', ustr_of ''three'', ustr_of ''four'']"
    by (simp add: interlocutor_entry_def demo_eval)
  have l: "length ([] :: ustr list) \<le> 3" by simp
  show ?thesis
    using context_window_holds_last_three [OF h l, of "ustr_of ''a.json''" "JStr (ustr_of ''Bob'')" "[]"]
    by simp
qed

text \<open>
  C3: an entry whose cleaned text is shorter than 2 characters or starts with
  \<open>http\<close> is discarded: the iteration leaves the pairs and the context window as
  they are, so the extraction of a log is the extraction of the log without that
  entry.
\<close>

theorem short_or_link_entry_discarded:
  assumes "map_of m (ustr_of ''text'') = Some raw"
    and "clean_text rt raw = Inr cleaned"
    and "length cleaned < 2 \<or> prefix (ustr_of ''http'') cleaned"
  shows "process_msg rt your_name fname cname st (JObj m) = Inr st
         \<and> process_messages rt your_name fname cname st0 (pre @ JObj m # post)
             = process_messages rt your_name fname cname st0 (pre @ post)"
proof -
  have step: "process_msg rt your_name fname cname s (JObj m) = Inr s" for s
    using assms by (rule process_msg_discarded)
  show ?thesis
    by (simp add: step process_messages_append split: sum.splits)
qed

theorem short_or_link_entry_discarded_witness:
  "process_msg demo_rt (ustr_of ''Andrey'') (ustr_of ''a.json'') (JStr (ustr_of ''Bob''))
     ([], [ustr_of ''hello'']) (message_entry ''Andrey'' ''https:  example.org'')
     = Inr ([], [ustr_of ''hello''])
   \<and> process_msg demo_rt (ustr_of ''Andrey'') (ustr_of ''a.json'') (JStr (ustr_of ''Bob''))
     ([], [ustr_of ''hello'']) (message_entry ''Bob'' '' k *'')
     = Inr ([], [ustr_of ''hello''])"
proof -
  have a2: "map_of [(ustr_of ''type'', JStr (ustr_of ''message'')),
                   (ustr_of ''from'', JStr (ustr_of ''Andrey'')),
                   (ustr_of ''text'', JStr (ustr_of ''https:  example.org''))] (ustr_of ''text'')
           = Some (JStr (ustr_of ''https:  example.org''))"
    by (simp add: demo_eval)
  have a3: "clean_text demo_rt (JStr (ustr_of ''https:  example.org''))
              = Inr (ustr_of ''https: example.org'')"
    by (simp add: demo_eval)
  have a4: "length (ustr_of ''https: example.org'') < 2
              \<or> prefix (ustr_of ''http'') (ustr_of ''https: example.org'')"
    by (simp add: demo_eval)
  have b2: "map_of [(ustr_of ''type'', JStr (ustr_of ''message'')),
                   (ustr_of ''from'', JStr (ustr_of ''Bob'')),
                   (ustr_of ''text'', JStr (ustr_of '' k *''))] (ustr_of ''text'')
           = Some (JStr (ustr_of '' k *''))"
    by (simp add: demo_eval)
  have b3: "clean_text demo_rt (JStr (ustr_of '' k *'')) = Inr (ustr_of ''k'')"
    by (simp add: demo_eval)
  have b4: "length (ustr_of ''k'') < 2 \<or> prefix (ustr_of ''http'') (ustr_of ''k'')"
    by (simp add: demo_eval)
  show ?thesis
    using short_or_link_entry_discarded [OF a2 a3 a4,
        of "ustr_of ''Andrey''" "ustr_of ''a.json''" "JStr (ustr_of ''Bob'')" "([], [ustr_of ''hello''])"]
      short_or_link_entry_discarded [OF b2 b3 b4,
        of "ustr_of ''Andrey''" "ustr_of ''a.json''" "JStr (ustr_of ''Bob'')" "([], [ustr_of ''hello''])"]
    by (simp add: message_entry_def)
qed

text \<open>
  C10, as stated, fails when the owner identity is the empty string: the defaulted
  sender then equals it, and the entry is taken as an outgoing message, which emits a
  pair and empties the window.
\<close>

theorem entry_without_sender_owner_empty:
  "process_msg demo_rt [] (ustr_of ''a.json'') (JStr (ustr_of ''Bob''))
     ([], [ustr_of ''hello'']) (anonymous_entry ''fine, thanks'')
     = Inr ([\<lparr>context' = [ustr_of ''hello''], response = ustr_of ''fine, thanks'',
              source_file = ustr_of ''a.json'', chat_name = JStr (ustr_of ''Bob'')\<rparr>], [])
   \<and> process_chat_file demo_rt demo_io [] (ustr_of ''a.json'')
       (Inr (personal_chat_of [message_entry ''Bob'' ''hello'', anonymous_entry ''fine, thanks'']))
     = Inr ([\<lparr>context' = [ustr_of ''hello''], response = ustr_of ''fine, thanks'',
              source_file = ustr_of ''a.json'', chat_name = JStr (ustr_of ''Bob'')\<rparr>], None)"
  by (simp add: process_msg_def process_chat_file_def process_chat_body_def append_context_def
        demo_eval)

text \<open>
  C10 (amended): when the owner identity is not the empty string, an entry that passes
  the filter and has no \<open>from\<close> field, or the empty string as its sender, is an
  interlocutor message: its cleaned text is appended to the context window and no pair
  is emitted.
\<close>

theorem entry_without_sender_is_interlocutor:
  assumes "your_name \<noteq> []"
    and "map_of m (ustr_of ''from'') = None \<or> map_of m (ustr_of ''from'') = Some (JStr [])"
    and "dict_get m (ustr_of ''type'') = JStr (ustr_of ''message'')"
    and "map_of m (ustr_of ''text'') = Some raw"
    and "clean_text rt raw = Inr cleaned"
    and "2 \<le> length cleaned"
    and "\<not> prefix (ustr_of ''http'') cleaned"
  shows "process_msg rt your_name fname cname (conversations, current_context) (JObj m)
           = Inr (conversations, append_context current_context cleaned)"
proof -
  from assms(2) have "dict_get_default m (ustr_of ''from'') (JStr []) = JStr []"
    by (auto simp: dict_get_default_def)
  with assms(1) have "dict_get_default m (ustr_of ''from'') (JStr []) \<noteq> JStr your_name"
    by auto
  with process_msg_surviving [OF assms(3-7), of your_name fname cname conversations current_context]
  show ?thesis by simp
qed

theorem entry_without_sender_is_interlocutor_witness:
  "process_msg demo_rt (ustr_of ''Andrey'') (ustr_of ''a.json'') (JStr (ustr_of ''Bob''))
     ([], [ustr_of ''hello'']) (anonymous_entry ''fine, thanks'')
     = Inr ([], [ustr_of ''hello'', ustr_of ''fine, thanks''])"
proof -
  let ?m = "[(ustr_of ''type'', JStr (ustr_of ''message'')),
             (ustr_of ''text'', JStr (ustr_of ''fine, thanks''))]"
  have 1: "ustr_of ''Andrey'' \<noteq> []" by (simp add: demo_eval)
  have 2: "map_of ?m (ustr_of ''from'') = None \<or> map_of ?m (ustr_of ''from'') = Some (JStr [])"
    by (simp add: demo_eval)
  have 3: "dict_get ?m (ustr_of ''type'') = JStr (ustr_of ''message'')"
    by (simp add: demo_eval)
  have 4: "map_of ?m (ustr_of ''text'') = Some (JStr (ustr_of ''fine, thanks''))"
    by (simp add: demo_eval)
  have 5: "clean_text demo_rt (JStr (ustr_of ''fine, thanks'')) = Inr (ustr_of ''fine, thanks'')"
    by (simp add: demo_eval)
  have 6: "2 \<le> length (ustr_of ''fine, thanks'')"
    by (simp add: demo_eval)
  have 7: "\<not> prefix (ustr_of ''http'') (ustr_of ''fine, thanks'')"
    by (simp add: demo_eval)
  show ?thesis
    using entry_without_sender_is_interlocutor [OF 1 2 3 4 5 6 7,
        of "ustr_of ''a.json''" "JStr (ustr_of ''Bob'')" "[]" "[ustr_of ''hello'']"]
    by (simp add: anonymous_entry_def append_context_def)
qed


lemma process_msg_not_object:
  "\<forall>m. bad \<noteq> JObj m \<Longrightarrow> process_msg rt your_name fname cname st bad = Inl AttributeError"
  by (cases st; cases bad) (simp_all add: process_msg_def)

lemma process_msg_fragment_without_text:
  assumes "dict_get m (ustr_of ''type'') = JStr (ustr_of ''message'')"
    and "map_of m (ustr_of ''text'') = Some (JArr (pre @ JObj fd # post))"
    and "map_of fd (ustr_of ''text'') = None"
  shows "\<exists>e. process_msg rt your_name fname cname st (JObj m) = Inl e"
proof -
  obtain e where "clean_text rt (JArr (pre @ JObj fd # post)) = Inl e"
    using clean_text_raises_without_text [OF assms(3)] by blast
  with assms(1,2) show ?thesis
    by (cases st) (simp add: process_msg_def)
qed

lemma process_messages_raises:
  assumes "\<forall>st. \<exists>e. process_msg rt your_name fname cname st bad = Inl e"
    and "bad \<in> set msgs"
  shows "\<exists>e. process_messages rt your_name fname cname st msgs = Inl e"
  using assms(2)
proof (induction msgs arbitrary: st)
  case Nil
  then show ?case by simp
next
  case (Cons msg msgs)
  show ?case
  proof (cases "process_msg rt your_name fname cname st msg")
    case (Inl e)
    then show ?thesis by simp
  next
    case (Inr st')
    obtain e where "process_msg rt your_name fname cname st bad = Inl e"
      using assms(1) by blast
    with Inr have "msg \<noteq> bad" by auto
    with Cons.prems have "bad \<in> set msgs" by simp
    from Cons.IH [OF this, of st'] Inr show ?thesis by simp
  qed
qed

lemma process_chat_body_raises:
  assumes "dict_get d (ustr_of ''type'') = JStr (ustr_of ''personal_chat'')"
    and "map_of d (ustr_of ''messages'') = Some (JArr msgs)"
    and "\<forall>st. \<exists>e. process_msg rt your_name fname
                      (dict_get_default d (ustr_of ''name'') (JStr (ustr_of ''Unknown''))) st bad
                    = Inl e"
    and "bad \<in> set msgs"
  shows "\<exists>e. process_chat_body rt your_name fname (Inr (JObj d)) = Inl e"
proof -
  obtain e where "process_messages rt your_name fname
      (dict_get_default d (ustr_of ''name'') (JStr (ustr_of ''Unknown''))) ([], []) msgs = Inl e"
    using process_messages_raises [OF assms(3,4)] by blast
  with assms(1,2) show ?thesis
    by (simp add: process_chat_body_def dict_get_default_def)
qed

lemma process_chat_file_caught:
  assumes "process_chat_body rt your_name fname rd = Inl e"
    and "print_raises io (ChatFileError fname e) = None"
  shows "process_chat_file rt io your_name fname rd = Inr ([], Some e)"
  using assms by (simp add: process_chat_file_def)

lemma process_chat_file_quiet:
  assumes "\<forall>m. print_raises io m = None"
  shows "\<exists>convs w. process_chat_file rt io your_name fname rd = Inr (convs, w)"
  using assms by (simp add: process_chat_file_def split: sum.splits)

lemma scan_files_result:
  assumes "scan_files rt io (all_conversations, n_total, n_processed) files = Inr (corpus, t, p)"
  shows "corpus = all_conversations @
           concat (map (\<lambda>f. returned_pairs
                          (process_chat_file rt io (ustr_of ''Andrey'') (fst f) (snd f))) files)
         \<and> t = n_total + length files
         \<and> (\<forall>f \<in> set files.
               \<exists>convs w. process_chat_file rt io (ustr_of ''Andrey'') (fst f) (snd f)
                           = Inr (convs, w))"
  using assms
proof (induction files arbitrary: all_conversations n_total n_processed)
  case Nil
  then show ?case by simp
next
  case (Cons f files)
  from Cons.prems obtain convs w where
    one: "process_chat_file rt io (ustr_of ''Andrey'') (fst f) (snd f) = Inr (convs, w)"
    by (auto split: option.splits sum.splits)
  from Cons.prems one obtain p' where
    rest: "scan_files rt io (all_conversations @ convs, n_total + 1, p') files = Inr (corpus, t, p)"
    by (cases "convs = []") (auto split: option.splits)
  from Cons.IH [OF rest] one show ?case
    by (simp add: returned_pairs_def)
qed

lemma scan_files_quiet:
  assumes "\<forall>m. print_raises io m = None"
  shows "\<exists>corpus t p. scan_files rt io acc files = Inr (corpus, t, p)"
proof (induction files arbitrary: acc)
  case Nil
  show ?case by (cases acc) simp
next
  case (Cons f files)
  obtain all_conversations n_total n_processed where
    acc: "acc = (all_conversations, n_total, n_processed)"
    by (cases acc)
  obtain convs w where
    one: "process_chat_file rt io (ustr_of ''Andrey'') (fst f) (snd f) = Inr (convs, w)"
    using process_chat_file_quiet [OF assms] by blast
  show ?case
    using Cons [of "(all_conversations @ convs, n_total + 1, n_processed + 1)"]
      Cons [of "(all_conversations, n_total + 1, n_processed)"] assms
    by (simp add: acc one)
qed

text \<open>
  C4, as stated, fails for a file that does not follow the schema and raises nothing:
  a personal chat whose texts are a number and a truth value yields a pair, and one
  with no \<open>messages\<close> yields no pair, both with no warning.
\<close>

theorem schema_invalid_chat_gives_no_warning:
  "process_chat_file demo_rt demo_io (ustr_of ''Andrey'') (ustr_of ''a.json'')
     (Inr (personal_chat_of
             [JObj [(ustr_of ''type'', JStr (ustr_of ''message'')),
                    (ustr_of ''from'', JStr (ustr_of ''Bob'')),
                    (ustr_of ''text'', JInt 12345)],
              JObj [(ustr_of ''type'', JStr (ustr_of ''message'')),
                    (ustr_of ''from'', JStr (ustr_of ''Andrey'')),
                    (ustr_of ''text'', JBool True)]]))
     = Inr ([\<lparr>context' = [ustr_of ''12345''], response = ustr_of ''True'',
               source_file = ustr_of ''a.json'', chat_name = JStr (ustr_of ''Bob'')\<rparr>], None)
   \<and> process_chat_file demo_rt demo_io (ustr_of ''Andrey'') (ustr_of ''a.json'')
       (Inr (JObj [(ustr_of ''type'', JStr (ustr_of ''personal_chat''))]))
     = Inr ([], None)"
  by (simp add: process_msg_def process_chat_file_def process_chat_body_def append_context_def
        str_int_def exceeds_digits_def decimal_def str_nat.simps demo_eval)

text \<open>
  C4 (amended): a chat log whose type is not \<open>personal_chat\<close> yields no pair, whatever
  its messages are. A file on which reading, parsing or processing raises yields no
  pair and a printed warning: a file that cannot be read or parsed, a document that is
  not an object, a \<open>messages\<close> value that is \<open>null\<close>, a truth value or a number, a
  message list with an entry that is not an object or with a message whose fragment list
  has a dict without \<open>text\<close>. When printing the warning raises, that exception leaves
  \<open>process_chat_file\<close>. When no \<open>print\<close> raises, the aggregation goes through every
  file and merges the pairs of each, in order, a file with a warning giving none.
\<close>

theorem other_chats_and_raising_files_yield_nothing:
  "(dict_get d (ustr_of ''type'') \<noteq> JStr (ustr_of ''personal_chat'') \<longrightarrow>
      process_chat_file rt io your_name fname (Inr (JObj d)) = Inr ([], None))
   \<and> (print_raises io (ChatFileError fname e) = None \<longrightarrow>
        process_chat_file rt io your_name fname (Inl e) = Inr ([], Some e))
   \<and> (print_raises io (ChatFileError fname e) = Some raised \<longrightarrow>
        process_chat_file rt io your_name fname (Inl e) = Inl raised)
   \<and> ((\<forall>d. v \<noteq> JObj d) \<and> print_raises io (ChatFileError fname AttributeError) = None \<longrightarrow>
        process_chat_file rt io your_name fname (Inr v) = Inr ([], Some AttributeError))
   \<and> (dict_get d (ustr_of ''type'') = JStr (ustr_of ''personal_chat'')
        \<and> map_of d (ustr_of ''messages'') = Some v
        \<and> (v = JNull \<or> (\<exists>b. v = JBool b) \<or> (\<exists>i. v = JInt i) \<or> (\<exists>r. v = JFloat r))
        \<and> print_raises io (ChatFileError fname TypeError) = None \<longrightarrow>
        process_chat_file rt io your_name fname (Inr (JObj d)) = Inr ([], Some TypeError))
   \<and> (dict_get d (ustr_of ''type'') = JStr (ustr_of ''personal_chat'')
        \<and> map_of d (ustr_of ''messages'') = Some (JArr msgs)
        \<and> bad \<in> set msgs
        \<and> ((\<forall>m. bad \<noteq> JObj m)
            \<or> (\<exists>m pre fd post.
                  bad = JObj m
                  \<and> dict_get m (ustr_of ''type'') = JStr (ustr_of ''message'')
                  \<and> map_of m (ustr_of ''text'') = Some (JArr (pre @ JObj fd # post))
                  \<and> map_of fd (ustr_of ''text'') = None))
        \<and> (\<forall>x. print_raises io (ChatFileError fname x) = None) \<longrightarrow>
        (\<exists>x. process_chat_file rt io your_name fname (Inr (JObj d)) = Inr ([], Some x)))
   \<and> ((\<forall>m. print_raises io m = None) \<longrightarrow>
        (\<exists>n_processed.
           scan_files rt io ([], 0, 0) files =
             Inr (concat (map (\<lambda>f. returned_pairs
                                  (process_chat_file rt io (ustr_of ''Andrey'') (fst f) (snd f)))
                              files),
                  length files, n_processed))
        \<and> (\<forall>f \<in> set files.
              \<exists>convs w. process_chat_file rt io (ustr_of ''Andrey'') (fst f) (snd f)
                          = Inr (convs, w)))"
proof -
  have a: "dict_get d (ustr_of ''type'') \<noteq> JStr (ustr_of ''personal_chat'') \<longrightarrow>
      process_chat_file rt io your_name fname (Inr (JObj d)) = Inr ([], None)"
    by (simp add: process_chat_file_def process_chat_body_def)
  have b: "print_raises io (ChatFileError fname e) = None \<longrightarrow>
        process_chat_file rt io your_name fname (Inl e) = Inr ([], Some e)"
    by (simp add: process_chat_file_def process_chat_body_def)
  have c: "print_raises io (ChatFileError fname e) = Some raised \<longrightarrow>
        process_chat_file rt io your_name fname (Inl e) = Inl raised"
    by (simp add: process_chat_file_def process_chat_body_def)
  have d: "(\<forall>d. v \<noteq> JObj d) \<and> print_raises io (ChatFileError fname AttributeError) = None \<longrightarrow>
        process_chat_file rt io your_name fname (Inr v) = Inr ([], Some AttributeError)"
    by (cases v) (simp_all add: process_chat_file_def process_chat_body_def)
  have e: "dict_get d (ustr_of ''type'') = JStr (ustr_of ''personal_chat'')
        \<and> map_of d (ustr_of ''messages'') = Some v
        \<and> (v = JNull \<or> (\<exists>b. v = JBool b) \<or> (\<exists>i. v = JInt i) \<or> (\<exists>r. v = JFloat r))
        \<and> print_raises io (ChatFileError fname TypeError) = None \<longrightarrow>
        process_chat_file rt io your_name fname (Inr (JObj d)) = Inr ([], Some TypeError)"
    by (auto simp: process_chat_file_def process_chat_body_def dict_get_default_def)
  have f: "dict_get d (ustr_of ''type'') = JStr (ustr_of ''personal_chat'')
        \<and> map_of d (ustr_of ''messages'') = Some (JArr msgs)
        \<and> bad \<in> set msgs
        \<and> ((\<forall>m. bad \<noteq> JObj m)
            \<or> (\<exists>m pre fd post.
                  bad = JObj m
                  \<and> dict_get m (ustr_of ''type'') = JStr (ustr_of ''message'')
                  \<and> map_of m (ustr_of ''text'') = Some (JArr (pre @ JObj fd # post))
                  \<and> map_of fd (ustr_of ''text'') = None))
        \<and> (\<forall>x. print_raises io (ChatFileError fname x) = None) \<longrightarrow>
        (\<exists>x. process_chat_file rt io your_name fname (Inr (JObj d)) = Inr ([], Some x))"
  proof (intro impI, elim conjE)
    assume ty: "dict_get d (ustr_of ''type'') = JStr (ustr_of ''personal_chat'')"
      and ms: "map_of d (ustr_of ''messages'') = Some (JArr msgs)"
      and mem: "bad \<in> set msgs"
      and kind: "(\<forall>m. bad \<noteq> JObj m)
            \<or> (\<exists>m pre fd post.
                  bad = JObj m
                  \<and> dict_get m (ustr_of ''type'') = JStr (ustr_of ''message'')
                  \<and> map_of m (ustr_of ''text'') = Some (JArr (pre @ JObj fd # post))
                  \<and> map_of fd (ustr_of ''text'') = None)"
      and quiet: "\<forall>x. print_raises io (ChatFileError fname x) = None"
    have "\<forall>st. \<exists>x. process_msg rt your_name fname
                      (dict_get_default d (ustr_of ''name'') (JStr (ustr_of ''Unknown''))) st bad
                    = Inl x"
      using kind process_msg_not_object process_msg_fragment_without_text by metis
    then obtain x where body: "process_chat_body rt your_name fname (Inr (JObj d)) = Inl x"
      using process_chat_body_raises [OF ty ms _ mem] by blast
    from quiet have "print_raises io (ChatFileError fname x) = None" by (rule spec)
    with body have "process_chat_file rt io your_name fname (Inr (JObj d)) = Inr ([], Some x)"
      by (rule process_chat_file_caught)
    then show "\<exists>x. process_chat_file rt io your_name fname (Inr (JObj d)) = Inr ([], Some x)"
      by (rule exI)
  qed
  have g: "(\<forall>m. print_raises io m = None) \<longrightarrow>
        (\<exists>n_processed.
           scan_files rt io ([], 0, 0) files =
             Inr (concat (map (\<lambda>f. returned_pairs
                                  (process_chat_file rt io (ustr_of ''Andrey'') (fst f) (snd f)))
                              files),
                  length files, n_processed))
        \<and> (\<forall>f \<in> set files.
              \<exists>convs w. process_chat_file rt io (ustr_of ''Andrey'') (fst f) (snd f)
                          = Inr (convs, w))"
  proof
    assume quiet: "\<forall>m. print_raises io m = None"
    obtain corpus t p where r: "scan_files rt io ([], 0, 0) files = Inr (corpus, t, p)"
      using scan_files_quiet [OF quiet] by blast
    from scan_files_result [OF r] r
    show "(\<exists>n_processed.
           scan_files rt io ([], 0, 0) files =
             Inr (concat (map (\<lambda>f. returned_pairs
                                  (process_chat_file rt io (ustr_of ''Andrey'') (fst f) (snd f)))
                              files),
                  length files, n_processed))
        \<and> (\<forall>f \<in> set files.
              \<exists>convs w. process_chat_file rt io (ustr_of ''Andrey'') (fst f) (snd f)
                          = Inr (convs, w))"
      by simp
  qed
  from a b c d e f g show ?thesis by blast
qed

theorem other_chats_and_raising_files_yield_nothing_witness:
  "process_chat_file demo_rt demo_io (ustr_of ''Andrey'') (ustr_of ''g.json'')
     (Inr (JObj [(ustr_of ''type'', JStr (ustr_of ''private_group'')),
                 (ustr_of ''messages'',
                  JArr [message_entry ''Bob'' ''hello'', message_entry ''Andrey'' ''hi there''])]))
     = Inr ([], None)
   \<and> process_chat_file demo_rt demo_io (ustr_of ''Andrey'') (ustr_of ''b.json'')
       (Inl JSONDecodeError)
     = Inr ([], Some JSONDecodeError)
   \<and> process_chat_file demo_rt (demo_io\<lparr>print_raises := (\<lambda>m. Some UnicodeEncodeError)\<rparr>)
       (ustr_of ''Andrey'') (ustr_of ''b.json'') (Inl JSONDecodeError)
     = Inl UnicodeEncodeError
   \<and> process_chat_file demo_rt demo_io (ustr_of ''Andrey'') (ustr_of ''l.json'') (Inr (JArr []))
     = Inr ([], Some AttributeError)
   \<and> process_chat_file demo_rt demo_io (ustr_of ''Andrey'') (ustr_of ''m.json'')
       (Inr (personal_chat_of
               [message_entry ''Bob'' ''hello'', message_entry ''Andrey'' ''hi there'', JInt 5]))
     = Inr ([], Some AttributeError)
   \<and> scan_files demo_rt demo_io ([], 0, 0)
        [(ustr_of ''b.json'', Inl JSONDecodeError),
         (ustr_of ''a.json'',
          Inr (personal_chat_of
                 [message_entry ''Bob'' ''hello'', message_entry ''Andrey'' ''hi there'']))]
     = Inr ([\<lparr>context' = [ustr_of ''hello''], response = ustr_of ''hi there'',
               source_file = ustr_of ''a.json'', chat_name = JStr (ustr_of ''Bob'')\<rparr>], 2, 1)"
proof -
  let ?group = "[(ustr_of ''type'', JStr (ustr_of ''private_group'')),
                 (ustr_of ''messages'',
                  JArr [message_entry ''Bob'' ''hello'', message_entry ''Andrey'' ''hi there''])]"
  let ?files = "[(ustr_of ''b.json'', Inl JSONDecodeError),
         (ustr_of ''a.json'',
          Inr (personal_chat_of
                 [message_entry ''Bob'' ''hello'', message_entry ''Andrey'' ''hi there'']))]"
  let ?deaf = "demo_io\<lparr>print_raises := (\<lambda>m. Some UnicodeEncodeError)\<rparr>"
  have ty: "dict_get ?group (ustr_of ''type'') \<noteq> JStr (ustr_of ''personal_chat'')"
    by (simp add: demo_eval)
  have quiet: "\<forall>m. print_raises demo_io m = None"
    by (simp add: demo_io_def)
  have loud: "print_raises ?deaf (ChatFileError (ustr_of ''b.json'') JSONDecodeError)
                = Some UnicodeEncodeError"
    by simp
  have good: "process_chat_file demo_rt demo_io (ustr_of ''Andrey'') (ustr_of ''a.json'')
     (Inr (personal_chat_of
             [message_entry ''Bob'' ''hello'', message_entry ''Andrey'' ''hi there'']))
     = Inr ([\<lparr>context' = [ustr_of ''hello''], response = ustr_of ''hi there'',
          source_file = ustr_of ''a.json'', chat_name = JStr (ustr_of ''Bob'')\<rparr>], None)"
    by (simp add: process_chat_file_def process_chat_body_def process_msg_def append_context_def
          demo_eval)
  have c1: "process_chat_file demo_rt demo_io (ustr_of ''Andrey'') (ustr_of ''g.json'')
              (Inr (JObj ?group)) = Inr ([], None)"
    using other_chats_and_raising_files_yield_nothing
        [where d = ?group and rt = demo_rt and io = demo_io and your_name = "ustr_of ''Andrey''"
           and fname = "ustr_of ''g.json''", THEN conjunct1] ty
    by (rule mp)
  have c2: "process_chat_file demo_rt demo_io (ustr_of ''Andrey'') (ustr_of ''b.json'')
              (Inl JSONDecodeError) = Inr ([], Some JSONDecodeError)"
    using other_chats_and_raising_files_yield_nothing
        [where rt = demo_rt and io = demo_io and your_name = "ustr_of ''Andrey''"
           and fname = "ustr_of ''b.json''" and e = JSONDecodeError, THEN conjunct2, THEN conjunct1]
      quiet [rule_format, of "ChatFileError (ustr_of ''b.json'') JSONDecodeError"]
    by (rule mp)
  have c3: "process_chat_file demo_rt ?deaf (ustr_of ''Andrey'') (ustr_of ''b.json'')
              (Inl JSONDecodeError) = Inl UnicodeEncodeError"
    using other_chats_and_raising_files_yield_nothing
        [where rt = demo_rt and io = ?deaf and your_name = "ustr_of ''Andrey''"
           and fname = "ustr_of ''b.json''" and e = JSONDecodeError
           and raised = UnicodeEncodeError, THEN conjunct2, THEN conjunct2, THEN conjunct1] loud
    by (rule mp)
  have c4: "process_chat_file demo_rt demo_io (ustr_of ''Andrey'') (ustr_of ''l.json'')
              (Inr (JArr [])) = Inr ([], Some AttributeError)"
    using other_chats_and_raising_files_yield_nothing
        [where rt = demo_rt and io = demo_io and your_name = "ustr_of ''Andrey''"
           and fname = "ustr_of ''l.json''" and v = "JArr []", THEN conjunct2, THEN conjunct2, THEN conjunct2, THEN conjunct1] quiet
    by simp
  have c5: "process_chat_file demo_rt demo_io (ustr_of ''Andrey'') (ustr_of ''m.json'')
       (Inr (personal_chat_of
               [message_entry ''Bob'' ''hello'', message_entry ''Andrey'' ''hi there'', JInt 5]))
     = Inr ([], Some AttributeError)"
    by (simp add: process_chat_file_def process_chat_body_def process_msg_def append_context_def
          demo_eval demo_io_def)
  have bad: "process_chat_file demo_rt demo_io (ustr_of ''Andrey'') (ustr_of ''b.json'')
                (Inl JSONDecodeError) = Inr ([], Some JSONDecodeError)"
    by (rule c2)
  obtain n_processed where
    scan: "scan_files demo_rt demo_io ([], 0, 0) ?files =
             Inr (concat (map (\<lambda>f. returned_pairs
                                  (process_chat_file demo_rt demo_io (ustr_of ''Andrey'') (fst f)
                                     (snd f))) ?files),
                  length ?files, n_processed)"
    using other_chats_and_raising_files_yield_nothing
        [where rt = demo_rt and io = demo_io and files = ?files, THEN conjunct2, THEN conjunct2, THEN conjunct2, THEN conjunct2, THEN conjunct2, THEN conjunct2] quiet
    by blast
  have direct: "snd (snd (projr (scan_files demo_rt demo_io ([], 0, 0) ?files))) = 1"
    by (simp add: good bad quiet)
  with scan have "n_processed = 1" by simp
  with scan have c6: "scan_files demo_rt demo_io ([], 0, 0) ?files
     = Inr ([\<lparr>context' = [ustr_of ''hello''], response = ustr_of ''hi there'',
               source_file = ustr_of ''a.json'', chat_name = JStr (ustr_of ''Bob'')\<rparr>], 2, 1)"
    by (simp add: good bad returned_pairs_def)
  from c1 c2 c3 c4 c5 c6 show ?thesis by blast
qed

section \<open>The aggregator\<close>

lemma process_msg_inv:
  assumes "process_msg rt your_name fname cname (convs, ctx) msg = Inr (convs', ctx')"
    and "length ctx \<le> 3" and "list_all (pair_ok fname) convs"
  shows "length ctx' \<le> 3 \<and> list_all (pair_ok fname) convs'"
  using assms
  by (auto simp: process_msg_def append_context_def Let_def pair_ok_def
           split: json.splits option.splits sum.splits if_splits)

lemma process_messages_inv:
  assumes "process_messages rt your_name fname cname (convs, ctx) msgs = Inr (convs', ctx')"
    and "length ctx \<le> 3" and "list_all (pair_ok fname) convs"
  shows "length ctx' \<le> 3 \<and> list_all (pair_ok fname) convs'"
  using assms
proof (induction msgs arbitrary: convs ctx)
  case Nil
  then show ?case by simp
next
  case (Cons msg msgs)
  from Cons.prems(1) obtain c1 x1 where
    s: "process_msg rt your_name fname cname (convs, ctx) msg = Inr (c1, x1)"
    and r: "process_messages rt your_name fname cname (c1, x1) msgs = Inr (convs', ctx')"
    by (auto split: sum.splits)
  from process_msg_inv [OF s Cons.prems(2,3)] Cons.IH [OF r] show ?case by simp
qed

lemma process_chat_file_pairs:
  "list_all (pair_ok fname) (returned_pairs (process_chat_file rt io your_name fname rd))"
proof (cases "process_chat_body rt your_name fname rd")
  case (Inl e)
  then show ?thesis
    by (simp add: process_chat_file_def returned_pairs_def split: option.splits)
next
  case (Inr convs)
  have "list_all (pair_ok fname) convs"
    using Inr process_messages_inv [of rt your_name fname _ "[]" "[]"]
    by (auto simp: process_chat_body_def split: sum.splits json.splits if_splits prod.splits)
  with Inr show ?thesis by (simp add: process_chat_file_def returned_pairs_def)
qed

lemma count_convs_lengths:
  "context_lengths (count_convs stats convs) =
     context_lengths stats @ map (\<lambda>p. length (context' p)) convs
   \<and> response_lengths (count_convs stats convs) =
     response_lengths stats @ map (\<lambda>p. length (response p)) convs
   \<and> total_conversations (count_convs stats convs) = total_conversations stats
   \<and> processed_files (count_convs stats convs) = processed_files stats
   \<and> total_files (count_convs stats convs) = total_files stats"
  by (induction convs arbitrary: stats) (simp_all add: count_conv_def Let_def)

lemma count_conv_sources:
  "map_of (chat_sources (count_conv stats conv)) =
     (map_of (chat_sources stats))
       (source_file conv \<mapsto>
          (case map_of (chat_sources stats) (source_file conv) of None \<Rightarrow> 0 | Some n \<Rightarrow> n) + 1)"
  by (simp add: count_conv_def Let_def update_conv')

lemma count_convs_sources:
  "map_of (chat_sources (count_convs stats convs)) fname =
     (let n = length (filter (\<lambda>p. source_file p = fname) convs)
      in case map_of (chat_sources stats) fname of
           None \<Rightarrow> if n = 0 then None else Some n
         | Some k \<Rightarrow> Some (k + n))"
proof (induction convs arbitrary: stats)
  case Nil
  show ?case by (simp split: option.splits)
next
  case (Cons conv convs)
  have "map_of (chat_sources (count_convs stats (conv # convs))) fname =
          map_of (chat_sources (count_convs (count_conv stats conv) convs)) fname"
    by simp
  also have "\<dots> =
     (let n = length (filter (\<lambda>p. source_file p = fname) convs)
      in case map_of (chat_sources (count_conv stats conv)) fname of
           None \<Rightarrow> if n = 0 then None else Some n
         | Some k \<Rightarrow> Some (k + n))"
    by (rule Cons.IH)
  also have "\<dots> =
     (let n = length (filter (\<lambda>p. source_file p = fname) (conv # convs))
      in case map_of (chat_sources stats) fname of
           None \<Rightarrow> if n = 0 then None else Some n
         | Some k \<Rightarrow> Some (k + n))"
    unfolding count_conv_sources by (simp add: Let_def split: option.splits)
  finally show ?case .
qed

lemma filter_other_file:
  assumes "list_all (pair_ok other) convs" and "other \<noteq> fname"
  shows "filter (\<lambda>p. source_file p = fname) convs = []"
  using assms by (induction convs) (auto simp: pair_ok_def)

lemma filter_same_file:
  assumes "list_all (pair_ok fname) convs"
  shows "filter (\<lambda>p. source_file p = fname) convs = convs"
  using assms by (induction convs) (auto simp: pair_ok_def)

lemma filter_corpus_absent:
  assumes "fname \<notin> fst ` set files"
  shows "filter (\<lambda>p. source_file p = fname)
           (concat (map (\<lambda>f. returned_pairs (process_chat_file rt io your_name (fst f) (snd f))) files)) = []"
  using assms
proof (induction files)
  case Nil
  show ?case by simp
next
  case (Cons f files)
  then have "fst f \<noteq> fname" by auto
  with filter_other_file [OF process_chat_file_pairs [of "fst f" rt io your_name "snd f"]] Cons
  show ?case by simp
qed

lemma filter_corpus_file:
  assumes "distinct (map fst files)" and "f \<in> set files"
  shows "filter (\<lambda>p. source_file p = fst f)
           (concat (map (\<lambda>f. returned_pairs (process_chat_file rt io your_name (fst f) (snd f))) files))
         = returned_pairs (process_chat_file rt io your_name (fst f) (snd f))"
  using assms
proof (induction files)
  case Nil
  then show ?case by simp
next
  case (Cons g files)
  show ?case
  proof (cases "g = f")
    case True
    with Cons.prems have "fst f \<notin> fst ` set files" by auto
    then have "filter (\<lambda>p. source_file p = fst f)
           (concat (map (\<lambda>f. returned_pairs (process_chat_file rt io your_name (fst f) (snd f))) files)) = []"
      by (rule filter_corpus_absent)
    with True filter_same_file [OF process_chat_file_pairs [of "fst f" rt io your_name "snd f"]]
    show ?thesis by simp
  next
    case False
    with Cons.prems have in_rest: "f \<in> set files" and d: "distinct (map fst files)"
      and ne: "fst g \<noteq> fst f"
      by (auto simp: image_iff)
    from filter_other_file [OF process_chat_file_pairs [of "fst g" rt io your_name "snd g"] ne]
      Cons.IH [OF d in_rest]
    show ?thesis by simp
  qed
qed

text \<open>
  C8: when a run writes its output, every file went through \<open>process_chat_file\<close>, the
  corpus is the concatenation of the pairs of each file and the statistics are computed
  from it alone: \<open>total_conversations\<close> is the number of pairs, \<open>context_lengths\<close> and
  \<open>response_lengths\<close> list the context length (at most 3) and the response length of
  every pair in corpus order, and \<open>chat_sources\<close> maps a file name to the number of
  pairs with that source, with no entry for a name that no pair has. When the file
  names are distinct, that number is the number of pairs the file gave.
\<close>

theorem statistics_fold_over_corpus:
  assumes "create_training_dataset rt io (Some files) = Written corpus stats"
  shows "(\<forall>f \<in> set files.
            \<exists>convs w. process_chat_file rt io (ustr_of ''Andrey'') (fst f) (snd f)
                        = Inr (convs, w))
         \<and> corpus =
             concat (map (\<lambda>f. returned_pairs
                                (process_chat_file rt io (ustr_of ''Andrey'') (fst f) (snd f)))
                         files)
         \<and> total_conversations stats = length corpus
         \<and> context_lengths stats = map (\<lambda>p. length (context' p)) corpus
         \<and> (\<forall>n \<in> set (context_lengths stats). n \<le> 3)
         \<and> response_lengths stats = map (\<lambda>p. length (response p)) corpus
         \<and> (\<forall>fname. map_of (chat_sources stats) fname =
               (if \<exists>p \<in> set corpus. source_file p = fname
                then Some (length (filter (\<lambda>p. source_file p = fname) corpus))
                else None))
         \<and> (distinct (map fst files) \<longrightarrow>
              (\<forall>f \<in> set files.
                 length (filter (\<lambda>p. source_file p = fst f) corpus) =
                 length (returned_pairs
                           (process_chat_file rt io (ustr_of ''Andrey'') (fst f) (snd f)))))"
proof -
  obtain n_total n_processed where
    scan: "scan_files rt io ([], 0, 0) files = Inr (corpus, n_total, n_processed)"
    and stats: "stats = make_stats corpus n_processed n_total"
    using assms
    by (auto simp: create_training_dataset_def Let_def
             split: sum.splits prod.splits option.splits if_splits)
  note scanned = scan_files_result [OF scan]
  have every: "\<forall>f \<in> set files.
            \<exists>convs w. process_chat_file rt io (ustr_of ''Andrey'') (fst f) (snd f)
                        = Inr (convs, w)"
    using scanned by blast
  have corpus: "corpus =
      concat (map (\<lambda>f. returned_pairs
                         (process_chat_file rt io (ustr_of ''Andrey'') (fst f) (snd f))) files)"
    using scanned by simp
  have total: "total_conversations stats = length corpus"
    unfolding stats make_stats_def by (simp add: count_convs_lengths)
  have ctx: "context_lengths stats = map (\<lambda>p. length (context' p)) corpus"
    unfolding stats make_stats_def by (simp add: count_convs_lengths)
  have resp: "response_lengths stats = map (\<lambda>p. length (response p)) corpus"
    unfolding stats make_stats_def by (simp add: count_convs_lengths)
  have ok: "\<forall>p \<in> set corpus. length (context' p) \<le> 3"
  proof
    fix p
    assume "p \<in> set corpus"
    then obtain f where
      "p \<in> set (returned_pairs (process_chat_file rt io (ustr_of ''Andrey'') (fst f) (snd f)))"
      unfolding corpus by auto
    with process_chat_file_pairs [of "fst f" rt io "ustr_of ''Andrey''" "snd f"]
    show "length (context' p) \<le> 3"
      by (auto simp: list_all_iff pair_ok_def)
  qed
  have bound: "\<forall>n \<in> set (context_lengths stats). n \<le> 3"
    unfolding ctx using ok by auto
  have src: "\<forall>fname. map_of (chat_sources stats) fname =
               (if \<exists>p \<in> set corpus. source_file p = fname
                then Some (length (filter (\<lambda>p. source_file p = fname) corpus))
                else None)"
  proof
    fix fname
    have "(filter (\<lambda>p. source_file p = fname) corpus = []) = (\<not> (\<exists>p \<in> set corpus. source_file p = fname))"
      by (auto simp: filter_empty_conv)
    then show "map_of (chat_sources stats) fname =
               (if \<exists>p \<in> set corpus. source_file p = fname
                then Some (length (filter (\<lambda>p. source_file p = fname) corpus))
                else None)"
      unfolding stats make_stats_def
      by (simp add: count_convs_sources Let_def)
  qed
  have per_file: "distinct (map fst files) \<longrightarrow>
              (\<forall>f \<in> set files.
                 length (filter (\<lambda>p. source_file p = fst f) corpus) =
                 length (returned_pairs
                           (process_chat_file rt io (ustr_of ''Andrey'') (fst f) (snd f))))"
    unfolding corpus by (auto simp: filter_corpus_file)
  from every corpus total ctx bound resp src per_file show ?thesis by blast
qed

theorem statistics_fold_over_corpus_witness:
  "create_training_dataset demo_rt demo_io
     (Some [(ustr_of ''a.json'',
             Inr (personal_chat_of
                    [message_entry ''Bob'' ''hello'', message_entry ''Bob'' ''how are you'',
                     message_entry ''Andrey'' ''fine'', message_entry ''Bob'' ''ok!'',
                     message_entry ''Andrey'' ''yes''])),
            (ustr_of ''b.json'', Inl OSError)])
     = Written
         [\<lparr>context' = [ustr_of ''hello'', ustr_of ''how are you''], response = ustr_of ''fine'',
           source_file = ustr_of ''a.json'', chat_name = JStr (ustr_of ''Bob'')\<rparr>,
          \<lparr>context' = [ustr_of ''ok!''], response = ustr_of ''yes'',
           source_file = ustr_of ''a.json'', chat_name = JStr (ustr_of ''Bob'')\<rparr>]
         \<lparr>total_conversations = 2, processed_files = 1, total_files = 2,
          chat_sources = [(ustr_of ''a.json'', 2)],
          context_lengths = [2, 1], response_lengths = [4, 3]\<rparr>
   \<and> map_of (chat_sources
         \<lparr>total_conversations = 2, processed_files = 1, total_files = 2,
          chat_sources = [(ustr_of ''a.json'', 2)],
          context_lengths = [2, 1], response_lengths = [4, 3]\<rparr>) (ustr_of ''b.json'') = None"
proof -
  have run: "create_training_dataset demo_rt demo_io
     (Some [(ustr_of ''a.json'',
             Inr (personal_chat_of
                    [message_entry ''Bob'' ''hello'', message_entry ''Bob'' ''how are you'',
                     message_entry ''Andrey'' ''fine'', message_entry ''Bob'' ''ok!'',
                     message_entry ''Andrey'' ''yes''])),
            (ustr_of ''b.json'', Inl OSError)])
     = Written
         [\<lparr>context' = [ustr_of ''hello'', ustr_of ''how are you''], response = ustr_of ''fine'',
           source_file = ustr_of ''a.json'', chat_name = JStr (ustr_of ''Bob'')\<rparr>,
          \<lparr>context' = [ustr_of ''ok!''], response = ustr_of ''yes'',
           source_file = ustr_of ''a.json'', chat_name = JStr (ustr_of ''Bob'')\<rparr>]
         \<lparr>total_conversations = 2, processed_files = 1, total_files = 2,
          chat_sources = [(ustr_of ''a.json'', 2)],
          context_lengths = [2, 1], response_lengths = [4, 3]\<rparr>"
    by (simp add: create_training_dataset_def make_stats_def count_conv_def
          process_chat_file_def process_chat_body_def process_msg_def append_context_def
          demo_io_def demo_eval)
  have "\<not> (\<exists>p \<in> set
         [\<lparr>context' = [ustr_of ''hello'', ustr_of ''how are you''], response = ustr_of ''fine'',
           source_file = ustr_of ''a.json'', chat_name = JStr (ustr_of ''Bob'')\<rparr>,
          \<lparr>context' = [ustr_of ''ok!''], response = ustr_of ''yes'',
           source_file = ustr_of ''a.json'', chat_name = JStr (ustr_of ''Bob'')\<rparr>].
          source_file p = ustr_of ''b.json'')"
    by (simp add: ustr_of_def)
  with statistics_fold_over_corpus [OF run] have
    "map_of (chat_sources
         \<lparr>total_conversations = 2, processed_files = 1, total_files = 2,
          chat_sources = [(ustr_of ''a.json'', 2)],
          context_lengths = [2, 1], response_lengths = [4, 3]\<rparr>) (ustr_of ''b.json'') = None"
    by presburger
  with run show ?thesis by blast
qed

section \<open>The generator\<close>

lemma py_contains_occurs: "py_contains sep s \<longleftrightarrow> (\<exists>i. occurs_at sep s i)"
  unfolding py_contains_def occurs_at_def
  by (simp only: set_upt atLeastLessThan_iff Bex_def) (auto simp: less_Suc_eq_le)

lemma occurs_at_0: "occurs_at sep s 0 \<longleftrightarrow> prefix sep s"
  by (simp add: occurs_at_def)

lemma occurs_at_Suc: "occurs_at sep (c # cs) (Suc k) \<longleftrightarrow> occurs_at sep cs k"
  by (simp add: occurs_at_def)

lemma occurs_at_drop:
  "n \<le> length s \<Longrightarrow> occurs_at sep (drop n s) k \<longleftrightarrow> occurs_at sep s (k + n)"
  by (auto simp: occurs_at_def)

lemma split_from_nonempty: "split_from sep piece s \<noteq> []"
  by (induction sep piece s rule: split_from.induct) auto

lemma split_from_none:
  "\<forall>i. \<not> occurs_at sep s i \<Longrightarrow> split_from sep piece s = [rev piece @ s]"
proof (induction sep piece s rule: split_from.induct)
  case (1 sep piece)
  show ?case by simp
next
  case (2 sep piece c cs)
  from 2(3) have no0: "\<not> prefix sep (c # cs)"
    using occurs_at_0 by blast
  from 2(3) have "\<forall>i. \<not> occurs_at sep cs i"
    using occurs_at_Suc by blast
  with 2(2) no0 show ?case by simp
qed

lemma self_marker_no_overlap:
  assumes "occurs_at self_marker t i" and "occurs_at self_marker t j" and "i < j"
  shows "i + length self_marker \<le> j"
proof (rule ccontr)
  assume "\<not> i + length self_marker \<le> j"
  with assms(3) have d: "j - i = 1 \<or> j - i = 2 \<or> j - i = 3"
    by (auto simp: self_marker_def)
  from assms(1) obtain rest where t: "drop i t = self_marker @ rest"
    by (auto simp: occurs_at_def prefix_def)
  from assms(3) have "drop j t = drop (j - i) (drop i t)" by simp
  with assms(2) t have "prefix self_marker (drop (j - i) (self_marker @ rest))"
    by (simp add: occurs_at_def)
  with d show False
    by (auto simp: self_marker_def)
qed

lemma split_from_last:
  assumes "\<forall>t i j. occurs_at sep t i \<longrightarrow> occurs_at sep t j \<longrightarrow> i < j \<longrightarrow> i + length sep \<le> j"
    and "sep \<noteq> []"
    and "occurs_at sep s i"
    and "\<forall>j. occurs_at sep s j \<longrightarrow> j \<le> i"
  shows "last (split_from sep piece s) = drop (i + length sep) s"
  using assms
proof (induction sep piece s arbitrary: i rule: split_from.induct)
  case (1 sep piece)
  then show ?case by (simp add: occurs_at_def)
next
  case (2 sep piece c cs)
  note no_overlap = 2(3) and nonempty = 2(4) and occ = 2(5) and greatest = 2(6)
  show ?case
  proof (cases "prefix sep (c # cs)")
    case True
    define rest where "rest = drop (length sep - 1) cs"
    have rest: "rest = drop (length sep) (c # cs)"
      unfolding rest_def using nonempty by (cases sep) auto
    have fits: "length sep \<le> length (c # cs)"
      using True by (rule prefix_length_le)
    have shift: "occurs_at sep rest k \<longleftrightarrow> occurs_at sep (c # cs) (k + length sep)" for k
      unfolding rest using fits by (rule occurs_at_drop)
    have unfold: "last (split_from sep piece (c # cs)) = last (split_from sep [] rest)"
      using True split_from_nonempty [of sep "[]" rest] by (simp add: rest_def)
    show ?thesis
    proof (cases "i = 0")
      case i0: True
      have "\<forall>k. \<not> occurs_at sep rest k"
      proof (intro allI notI)
        fix k
        assume "occurs_at sep rest k"
        then have "occurs_at sep (c # cs) (k + length sep)" by (simp add: shift)
        with greatest have "k + length sep \<le> i" by blast
        with i0 nonempty show False by simp
      qed
      then have "split_from sep [] rest = [rest]"
        using split_from_none [of sep rest "[]"] by simp
      with unfold rest i0 show ?thesis by simp
    next
      case False
      have "occurs_at sep (c # cs) 0" using True by (simp add: occurs_at_0)
      with no_overlap occ False have far: "length sep \<le> i" by force
      define i' where "i' = i - length sep"
      from far have i: "i = i' + length sep" by (simp add: i'_def)
      have occ': "occurs_at sep rest i'" using occ by (simp add: shift i)
      have greatest': "\<forall>j. occurs_at sep rest j \<longrightarrow> j \<le> i'"
      proof (intro allI impI)
        fix j
        assume "occurs_at sep rest j"
        then have "occurs_at sep (c # cs) (j + length sep)" by (simp add: shift)
        with greatest have "j + length sep \<le> i" by blast
        with i show "j \<le> i'" by simp
      qed
      have "last (split_from sep [] rest) = drop (i' + length sep) rest"
        using "2.IH"(1) [OF True no_overlap nonempty, of i'] occ' greatest'
        unfolding rest_def by blast
      also have "\<dots> = drop (i + length sep) (c # cs)"
        unfolding rest i by (simp add: add.commute)
      finally show ?thesis using unfold by simp
    qed
  next
    case False
    then have "\<not> occurs_at sep (c # cs) 0" by (simp add: occurs_at_0)
    with occ obtain i' where i: "i = Suc i'" by (cases i) auto
    have occ': "occurs_at sep cs i'" using occ by (simp add: i occurs_at_Suc)
    have greatest': "\<forall>j. occurs_at sep cs j \<longrightarrow> j \<le> i'"
    proof (intro allI impI)
      fix j
      assume "occurs_at sep cs j"
      then have "occurs_at sep (c # cs) (Suc j)" by (simp add: occurs_at_Suc)
      with greatest have "Suc j \<le> i" by blast
      with i show "j \<le> i'" by simp
    qed
    have "last (split_from sep (c # piece) cs) = drop (i' + length sep) cs"
      using "2.IH"(2) [OF False no_overlap nonempty, of i'] occ' greatest' by blast
    with False i show ?thesis by simp
  qed
qed

lemma last_occurrence_exists:
  assumes "occurs_at sep s k"
  shows "\<exists>i. occurs_at sep s i \<and> (\<forall>j. occurs_at sep s j \<longrightarrow> j \<le> i)"
proof -
  have "\<forall>y. occurs_at sep s y \<longrightarrow> y < Suc (length s)"
    by (simp add: occurs_at_def)
  with assms ex_has_greatest_nat [of "occurs_at sep s" k "\<lambda>i. i" "Suc (length s)"]
  show ?thesis by simp
qed

lemma extract_reply_marker:
  assumes "occurs_at self_marker full i"
    and "\<forall>j. occurs_at self_marker full j \<longrightarrow> j \<le> i"
  shows "extract_reply rt full = Inr (py_strip rt (drop (i + length self_marker) full))"
proof -
  have ne: "self_marker \<noteq> []" by (simp add: self_marker_def)
  have no: "\<forall>t i j. occurs_at self_marker t i \<longrightarrow> occurs_at self_marker t j \<longrightarrow> i < j \<longrightarrow>
              i + length self_marker \<le> j"
    using self_marker_no_overlap by blast
  have "last (split_from self_marker [] full) = drop (i + length self_marker) full"
    using no ne assms by (rule split_from_last)
  moreover have "py_contains self_marker full"
    using assms(1) py_contains_occurs by blast
  ultimately show ?thesis
    using ne by (simp add: extract_reply_def py_split_def py_last_def split_from_nonempty)
qed

lemma extract_reply_no_marker:
  assumes "\<forall>i. \<not> occurs_at self_marker full i"
  shows "extract_reply rt full = Inr (py_strip rt full)"
  using assms by (simp add: extract_reply_def py_contains_occurs)

text \<open>
  C7: the reply extraction never raises. When the self marker occurs in the decoded
  text, there is a last occurrence and the result is the stripped text behind it; when
  the marker does not occur, the result is the stripped text.
\<close>

theorem extract_reply_after_last_marker:
  "(\<exists>r. extract_reply rt full = Inr r)
   \<and> ((\<exists>k. occurs_at self_marker full k) \<longrightarrow>
        (\<exists>i. occurs_at self_marker full i
             \<and> (\<forall>j. occurs_at self_marker full j \<longrightarrow> j \<le> i)
             \<and> extract_reply rt full = Inr (py_strip rt (drop (i + length self_marker) full))))
   \<and> ((\<forall>k. \<not> occurs_at self_marker full k) \<longrightarrow>
        extract_reply rt full = Inr (py_strip rt full))"
proof -
  have with_marker: "(\<exists>k. occurs_at self_marker full k) \<longrightarrow>
        (\<exists>i. occurs_at self_marker full i
             \<and> (\<forall>j. occurs_at self_marker full j \<longrightarrow> j \<le> i)
             \<and> extract_reply rt full = Inr (py_strip rt (drop (i + length self_marker) full)))"
  proof
    assume "\<exists>k. occurs_at self_marker full k"
    then obtain i where i: "occurs_at self_marker full i"
      and g: "\<forall>j. occurs_at self_marker full j \<longrightarrow> j \<le> i"
      using last_occurrence_exists by blast
    from extract_reply_marker [OF i g, of rt] i g
    show "\<exists>i. occurs_at self_marker full i
             \<and> (\<forall>j. occurs_at self_marker full j \<longrightarrow> j \<le> i)
             \<and> extract_reply rt full = Inr (py_strip rt (drop (i + length self_marker) full))"
      by blast
  qed
  have without: "(\<forall>k. \<not> occurs_at self_marker full k) \<longrightarrow>
        extract_reply rt full = Inr (py_strip rt full)"
    using extract_reply_no_marker by blast
  from with_marker without have "\<exists>r. extract_reply rt full = Inr r"
    by blast
  with with_marker without show ?thesis by blast
qed

theorem extract_reply_after_last_marker_witness:
  "extract_reply demo_rt
     (self_marker @ ustr_of ''hi '' @ [10] @ self_marker @ ustr_of '' Good, thanks '' @ [10])
     = Inr (ustr_of ''Good, thanks'')
   \<and> extract_reply demo_rt (ustr_of ''  no marker here '') = Inr (ustr_of ''no marker here'')"
proof -
  let ?full = "self_marker @ ustr_of ''hi '' @ [10] @ self_marker @ ustr_of '' Good, thanks '' @ [10]"
  have occ: "occurs_at self_marker ?full 8"
    by (simp add: occurs_at_def self_marker_def ustr_of_def)
  have last: "\<forall>j. occurs_at self_marker ?full j \<longrightarrow> j \<le> 8"
  proof (intro allI impI)
    fix j
    assume j: "occurs_at self_marker ?full j"
    show "j \<le> 8"
    proof (rule ccontr)
      assume "\<not> j \<le> 8"
      then have "8 < j" by simp
      with self_marker_no_overlap [OF occ j] have "12 \<le> j" by (simp add: self_marker_def)
      then obtain d where d: "j = 12 + d" using le_Suc_ex by blast
      from j show False
        unfolding d by (auto simp: occurs_at_def self_marker_def ustr_of_def drop_Cons' split: if_splits)
    qed
  qed
  from extract_reply_after_last_marker [of demo_rt ?full] occ last
  obtain i where "occurs_at self_marker ?full i" and "\<forall>j. occurs_at self_marker ?full j \<longrightarrow> j \<le> i"
    and r: "extract_reply demo_rt ?full = Inr (py_strip demo_rt (drop (i + length self_marker) ?full))"
    by blast
  with occ last have "i = 8" by (meson le_antisym)
  with r have a: "extract_reply demo_rt ?full = Inr (ustr_of ''Good, thanks'')"
    by (simp add: self_marker_def ustr_of_def py_strip_def demo_rt_def demo_isspace_def)
  have none: "\<forall>k. \<not> occurs_at self_marker (ustr_of ''  no marker here '') k"
  proof (intro allI notI)
    fix k
    assume "occurs_at self_marker (ustr_of ''  no marker here '') k"
    then have "1042 \<in> set (ustr_of ''  no marker here '')"
      by (auto simp: occurs_at_def self_marker_def prefix_def dest!: arg_cong [where f = set]
               dest: in_set_dropD)
    then show False by (simp add: ustr_of_def)
  qed
  with extract_reply_after_last_marker [of demo_rt "ustr_of ''  no marker here ''"]
  have b: "extract_reply demo_rt (ustr_of ''  no marker here '') = Inr (ustr_of ''no marker here'')"
    by (simp add: ustr_of_def py_strip_def demo_rt_def demo_isspace_def)
  from a b show ?thesis by blast
qed

lemma generate_response_loaded:
  assumes "model_loaded self" and "tokenizer_loaded self"
  shows "\<exists>r. generate_response rt infer self context_messages max_length temperature w =
           (Inr r, snd (infer (dialog_text context_messages) max_length temperature w))"
  using assms
  by (auto simp: generate_response_def split: prod.splits sum.splits)

lemma responses_loop_loaded:
  assumes "model_loaded self" and "tokenizer_loaded self"
  shows "\<exists>rs w'. responses_loop rt infer self context_messages temperature responses js w =
           (Inr rs, w') \<and> length rs = length responses + length js"
proof (induction js arbitrary: responses w)
  case Nil
  show ?case by simp
next
  case (Cons i js)
  obtain r w1 where
    one: "generate_response rt infer self context_messages 100 (temperature + real i * (1 / 10)) w
            = (Inr r, w1)"
    using generate_response_loaded [OF assms, of rt infer context_messages 100
        "temperature + real i * (1 / 10)" w]
    by blast
  from Cons [of "responses @ [r]" w1] obtain rs w' where
    "responses_loop rt infer self context_messages temperature (responses @ [r]) js w1 = (Inr rs, w')"
    and "length rs = length (responses @ [r]) + length js"
    by blast
  with one show ?case by (simp add: Let_def)
qed

text \<open>
  C9: on a generator whose model and tokenizer are loaded, \<open>generate_response\<close> always
  returns a string, and when the inference call raises, that string is the fixed
  fallback reply. \<open>generate_multiple_responses\<close> therefore always returns a list, of as
  many strings as were requested.
\<close>

theorem generation_failure_gives_fallback:
  assumes "model_loaded self" and "tokenizer_loaded self"
  shows "(\<exists>r w'. generate_response rt infer self context_messages max_length temperature w
                    = (Inr r, w'))
         \<and> (\<forall>e w'. infer (dialog_text context_messages) max_length temperature w = (Inl e, w')
               \<longrightarrow> generate_response rt infer self context_messages max_length temperature w
                     = (Inr fallback_reply, w'))
         \<and> (\<exists>rs w'. generate_multiple_responses rt infer self context_messages num_responses
                        temperature w = (Inr rs, w')
                    \<and> length rs = nat num_responses)"
proof -
  have a: "\<exists>r w'. generate_response rt infer self context_messages max_length temperature w
                    = (Inr r, w')"
    using generate_response_loaded [OF assms, of rt infer context_messages max_length
        temperature w]
    by blast
  have b: "\<forall>e w'. infer (dialog_text context_messages) max_length temperature w = (Inl e, w')
               \<longrightarrow> generate_response rt infer self context_messages max_length temperature w
                     = (Inr fallback_reply, w')"
    using assms by (simp add: generate_response_def)
  have c: "\<exists>rs w'. generate_multiple_responses rt infer self context_messages num_responses
                        temperature w = (Inr rs, w')
                    \<and> length rs = nat num_responses"
    using responses_loop_loaded [OF assms, of rt infer context_messages temperature "[]"
        "[0..<nat num_responses]" w]
    by (simp add: generate_multiple_responses_def)
  from a b c show ?thesis by blast
qed

text \<open>
  An inference call for the example: the world is the number of calls made so far,
  the second call raises, the others echo the prompt and add a reply.
\<close>

theorem generation_failure_gives_fallback_witness:
  "generate_multiple_responses demo_rt
     (\<lambda>prompt max_length temperature w.
        (if w = Suc 0 then Inl InferenceError else Inr (prompt @ ustr_of '' ok ''), Suc w))
     \<lparr>model_loaded = True, tokenizer_loaded = True\<rparr> [ustr_of ''hi''] 3 (7 / 10) 0
     = (Inr [ustr_of ''ok'', fallback_reply, ustr_of ''ok''], 3)"
proof -
  let ?infer = "\<lambda>(prompt :: ustr) (max_length :: nat) (temperature :: real) w.
        (if w = Suc 0 then Inl InferenceError else Inr (prompt @ ustr_of '' ok ''), Suc w)"
  let ?self = "\<lparr>model_loaded = True, tokenizer_loaded = True\<rparr>"
  have m: "model_loaded ?self" and t: "tokenizer_loaded ?self" by simp_all
  have ok: "extract_reply demo_rt (dialog_text [ustr_of ''hi''] @ ustr_of '' ok '')
              = Inr (ustr_of ''ok'')"
    by (simp add: extract_reply_def py_contains_def py_split_def py_last_def dialog_text_def
          self_marker_def interlocutor_marker_def ustr_of_def py_strip_def demo_rt_def
          demo_isspace_def)
  have first: "generate_response demo_rt ?infer ?self [ustr_of ''hi''] 100 temp 0
                 = (Inr (ustr_of ''ok''), Suc 0)" for temp
    by (simp add: generate_response_def ok)
  have second: "generate_response demo_rt ?infer ?self [ustr_of ''hi''] 100 temp (Suc 0)
                 = (Inr fallback_reply, 2)" for temp
    using generation_failure_gives_fallback [OF m t, of demo_rt ?infer "[ustr_of ''hi'']" 100 temp
        "Suc 0"]
    by simp
  have third: "generate_response demo_rt ?infer ?self [ustr_of ''hi''] 100 temp 2
                 = (Inr (ustr_of ''ok''), 3)" for temp
    by (simp add: generate_response_def ok)
  have "[0..<nat 3] = [0, Suc 0, 2]" by (simp add: upt_rec)
  then show ?thesis
    by (simp add: generate_multiple_responses_def first second third Let_def)
qed

end
